theory Spec2Isabelle
  imports Main "HOL-Library.Word" "HOL-Library.List_Lexorder" "HOL-Library.Char_ord"
begin

section \<open>Availability calculator (app/api/calendar/service.py)\<close>

text \<open>
  \<^verbatim>\<open>AvailabilitySlot\<close> (app/schemas/calendar.py) holds two wall-clock strings
  \<^verbatim>\<open>"HH:MM"\<close>. The Python code compares them as strings, that is, lexicographically
  by code point; the order on \<open>string\<close> used here is the same one
  (lexicographic, characters by their code).  The field \<^verbatim>\<open>end\<close> is written
  \<open>end'\<close>.
\<close>

record AvailabilitySlot =
  start :: string
  end' :: string

text \<open>
  The \<^verbatim>\<open>for busy in sorted_busy\<close> loop of \<^verbatim>\<open>_calculate_free_slots\<close>, with the
  two variables it updates: the list \<^verbatim>\<open>free_slots\<close> and the cursor
  \<^verbatim>\<open>current_start\<close>.
\<close>

fun walk_busy ::
  "AvailabilitySlot list \<Rightarrow> AvailabilitySlot list \<Rightarrow> string \<Rightarrow> AvailabilitySlot list \<times> string"
where
  "walk_busy [] free_slots current_start = (free_slots, current_start)"
| "walk_busy (busy # rest) free_slots current_start =
     walk_busy rest
       (if start busy > current_start
        then free_slots @ [\<lparr>start = current_start, end' = start busy\<rparr>]
        else free_slots)
       (max current_start (end' busy))"

text \<open>
  \<^verbatim>\<open>sorted(busy_slots, key=lambda x: x.start)\<close> is a stable sort by the start
  string, as \<open>sort_key start\<close> is.
\<close>

definition calculate_free_slots ::
  "AvailabilitySlot list \<Rightarrow> string \<Rightarrow> string \<Rightarrow> AvailabilitySlot list"
where
  "calculate_free_slots busy_slots work_start work_end =
     (if busy_slots = [] then [\<lparr>start = work_start, end' = work_end\<rparr>]
      else
        let sorted_busy = sort_key start busy_slots;
            (free_slots, current_start) = walk_busy sorted_busy [] work_start
        in if current_start < work_end
           then free_slots @ [\<lparr>start = current_start, end' = work_end\<rparr>]
           else free_slots)"

subsection \<open>What the specification says about it\<close>

text \<open>A time \<open>t\<close> lies in the half-open slot \<open>[start, end)\<close>.\<close>

definition in_slot :: "string \<Rightarrow> AvailabilitySlot \<Rightarrow> bool" where
  "in_slot t s = (start s \<le> t \<and> t < end' s)"

text \<open>A time is covered by a list of slots when it lies in one of them.\<close>

definition covered :: "AvailabilitySlot list \<Rightarrow> string \<Rightarrow> bool" where
  "covered slots t = list_ex (in_slot t) slots"

text \<open>
  The algorithm in the words of the specification (section 4.4): a cursor starts at
  \<open>work_start\<close>; for each busy interval, a free slot \<open>[cursor, busy.start)\<close> is
  emitted if the interval starts after the cursor, and the cursor moves to
  \<open>max cursor busy.end\<close>; after the last interval a final slot
  \<open>[cursor, work_end)\<close> is emitted if the cursor is before \<open>work_end\<close>.
\<close>

fun spec_walk :: "string \<Rightarrow> string \<Rightarrow> AvailabilitySlot list \<Rightarrow> AvailabilitySlot list" where
  "spec_walk cursor work_end [] =
     (if cursor < work_end then [\<lparr>start = cursor, end' = work_end\<rparr>] else [])"
| "spec_walk cursor work_end (b # bs) =
     (if cursor < start b then [\<lparr>start = cursor, end' = start b\<rparr>] else [])
     @ spec_walk (max cursor (end' b)) work_end bs"

text \<open>
  The specification's free slots: the single slot spanning the window for an empty busy
  list, the walk over the busy intervals sorted by start otherwise.
\<close>

definition spec_free_slots ::
  "AvailabilitySlot list \<Rightarrow> string \<Rightarrow> string \<Rightarrow> AvailabilitySlot list"
where
  "spec_free_slots busy work_start work_end =
     (if busy = [] then [\<lparr>start = work_start, end' = work_end\<rparr>]
      else spec_walk work_start work_end (sort_key start busy))"

section \<open>Python values used by app/core/security.py\<close>

text \<open>
  A Python \<^verbatim>\<open>str\<close> is modelled as a \<open>string\<close> whose characters are its code
  points (the code points below 256 are the ones a \<open>char\<close> can hold); a Python
  \<^verbatim>\<open>bytes\<close> value is a list of 8-bit words.  Exceptions raised by library calls
  are values of \<open>py_exception\<close>; a call that may raise returns a sum with the exception
  on the left.
\<close>

type_synonym byte = "8 word"

datatype py_exception =
    TypeError
  | ValueError
  | UnicodeDecodeError
  | BinasciiError
  | InvalidTag
  | AttributeError

subsection \<open>\<^verbatim>\<open>str.encode("utf-8")\<close>\<close>

text \<open>
  UTF-8 writes a code point below 128 as one byte and a code point from 128 to 255 as
  two bytes, \<open>110xxxxx 10xxxxxx\<close>.
\<close>

definition utf8_encode_char :: "char \<Rightarrow> byte list" where
  "utf8_encode_char c =
     (let n = (of_char c :: nat)
      in if n < 128 then [of_nat n] else [of_nat (192 + n div 64), of_nat (128 + n mod 64)])"

definition utf8_encode :: "string \<Rightarrow> byte list" where
  "utf8_encode s = concat (map utf8_encode_char s)"

subsection \<open>\<^verbatim>\<open>hexdigest()\<close>\<close>

definition hex_digits :: string where
  "hex_digits = ''0123456789abcdef''"

definition hex_of_byte :: "byte \<Rightarrow> string" where
  "hex_of_byte b = [hex_digits ! (unat b div 16), hex_digits ! (unat b mod 16)]"

definition hexdigest :: "byte list \<Rightarrow> string" where
  "hexdigest bs = concat (map hex_of_byte bs)"

subsection \<open>\<^verbatim>\<open>base64.b64encode\<close> and \<^verbatim>\<open>secrets.token_urlsafe\<close>\<close>

definition b64_alphabet :: string where
  "b64_alphabet = ''ABCDEFGHIJKLMNOPQRSTUVWXYZabcdefghijklmnopqrstuvwxyz0123456789+/''"

definition b64_char :: "nat \<Rightarrow> char" where
  "b64_char n = b64_alphabet ! n"

text \<open>
  Three bytes give four characters of six bits each; a final group of one or two bytes
  is padded with \<open>=\<close>, its unused low bits set to zero.
\<close>

fun b64encode :: "byte list \<Rightarrow> string" where
  "b64encode (b1 # b2 # b3 # rest) =
     [b64_char (unat b1 div 4),
      b64_char ((unat b1 mod 4) * 16 + unat b2 div 16),
      b64_char ((unat b2 mod 16) * 4 + unat b3 div 64),
      b64_char (unat b3 mod 64)] @ b64encode rest"
| "b64encode [b1, b2] =
     [b64_char (unat b1 div 4),
      b64_char ((unat b1 mod 4) * 16 + unat b2 div 16),
      b64_char ((unat b2 mod 16) * 4),
      CHR ''='']"
| "b64encode [b1] =
     [b64_char (unat b1 div 4),
      b64_char ((unat b1 mod 4) * 16),
      CHR ''='', CHR ''='']"
| "b64encode [] = []"

text \<open>\<^verbatim>\<open>urlsafe_b64encode\<close> writes \<open>-\<close> for \<open>+\<close> and \<open>_\<close> for \<open>/\<close>.\<close>

definition urlsafe_b64encode :: "byte list \<Rightarrow> string" where
  "urlsafe_b64encode bs =
     map (\<lambda>c. if c = CHR ''+'' then CHR ''-'' else if c = CHR ''/'' then CHR ''_'' else c)
       (b64encode bs)"

text \<open>
  \<^verbatim>\<open>secrets.token_urlsafe(n)\<close> is
  \<^verbatim>\<open>urlsafe_b64encode(token_bytes(n)).rstrip(b'=').decode('ascii')\<close>; the random
  bytes the operating system returned are the argument here.
\<close>

definition token_urlsafe :: "byte list \<Rightarrow> string" where
  "token_urlsafe random_bytes =
     rev (dropWhile (\<lambda>c. c = CHR ''='') (rev (urlsafe_b64encode random_bytes)))"

subsection \<open>\<^verbatim>\<open>str(int)\<close> and \<^verbatim>\<open>int(str)\<close>\<close>

definition digit_char :: "nat \<Rightarrow> char" where
  "digit_char d = char_of (48 + d)"

function str_nat :: "nat \<Rightarrow> string" where
  "str_nat n = (if n < 10 then [digit_char n] else str_nat (n div 10) @ [digit_char (n mod 10)])"
  by pat_completeness auto
termination
  by (relation "measure (\<lambda>n. n)") auto

declare str_nat.simps [simp del]

text \<open>The decimal text of an integer, as \<^verbatim>\<open>f"{timestamp}"\<close> formats it.\<close>

definition py_str_int :: "int \<Rightarrow> string" where
  "py_str_int i = (if i < 0 then CHR ''-'' # str_nat (nat (- i)) else str_nat (nat i))"

definition is_digit :: "char \<Rightarrow> bool" where
  "is_digit c = (48 \<le> (of_char c :: nat) \<and> (of_char c :: nat) \<le> 57)"

definition digit_value :: "char \<Rightarrow> nat" where
  "digit_value c = (of_char c :: nat) - 48"

text \<open>
  The white space \<^verbatim>\<open>int()\<close> strips from both ends of its argument: among the code
  points below 256 these are tab to carriage return, the space, U+0085 and U+00A0
  (the separators U+001C to U+001F, which \<^verbatim>\<open>str.isspace\<close> accepts, are not
  stripped).
\<close>

definition is_space :: "char \<Rightarrow> bool" where
  "is_space c =
     (let n = (of_char c :: nat)
      in (9 \<le> n \<and> n \<le> 13) \<or> n = 32 \<or> n = 133 \<or> n = 160)"

definition py_strip :: "string \<Rightarrow> string" where
  "py_strip s = rev (dropWhile is_space (rev (dropWhile is_space s)))"

text \<open>
  The digits of a decimal literal: a single underscore is allowed between two digits,
  nothing else but digits.
\<close>

fun parse_digits :: "string \<Rightarrow> nat \<Rightarrow> nat option" where
  "parse_digits [] acc = Some acc"
| "parse_digits (c # cs) acc =
     (if is_digit c then parse_digits cs (acc * 10 + digit_value c)
      else if c = CHR ''_'' then
        (case cs of
           [] \<Rightarrow> None
         | d # _ \<Rightarrow> if is_digit d then parse_digits cs acc else None)
      else None)"

definition parse_unsigned :: "string \<Rightarrow> nat option" where
  "parse_unsigned s =
     (case s of
        [] \<Rightarrow> None
      | c # _ \<Rightarrow> if is_digit c then parse_digits s 0 else None)"

text \<open>\<^verbatim>\<open>int(s)\<close> for a string: \<^verbatim>\<open>ValueError\<close> unless \<open>s\<close> is a decimal literal.\<close>

definition py_int :: "string \<Rightarrow> py_exception + int" where
  "py_int s =
     (case py_strip s of
        [] \<Rightarrow> Inl ValueError
      | c # cs \<Rightarrow>
          if c = CHR ''-'' then
            (case parse_unsigned cs of None \<Rightarrow> Inl ValueError | Some n \<Rightarrow> Inr (- int n))
          else if c = CHR ''+'' then
            (case parse_unsigned cs of None \<Rightarrow> Inl ValueError | Some n \<Rightarrow> Inr (int n))
          else
            (case parse_unsigned (c # cs) of None \<Rightarrow> Inl ValueError | Some n \<Rightarrow> Inr (int n)))"

subsection \<open>\<^verbatim>\<open>str.split\<close>, \<^verbatim>\<open>str.rsplit\<close> and \<^verbatim>\<open>hmac.compare_digest\<close>\<close>

text \<open>
  \<^verbatim>\<open>s.split(sep)\<close> for a one-character separator: the pieces between the
  separators, empty pieces included; a string without the separator is one piece.
\<close>

fun py_split :: "char \<Rightarrow> string \<Rightarrow> string list" where
  "py_split sep [] = [[]]"
| "py_split sep (c # cs) =
     (if c = sep then [] # py_split sep cs
      else (case py_split sep cs of
              [] \<Rightarrow> [[c]]
            | w # ws \<Rightarrow> (c # w) # ws))"

text \<open>
  \<^verbatim>\<open>s.rsplit(sep, 1)\<close>: the string split once at its last separator, or the string
  alone if it has none.
\<close>

definition py_rsplit1 :: "char \<Rightarrow> string \<Rightarrow> string list" where
  "py_rsplit1 sep s =
     (if sep \<in> set s
      then [rev (tl (dropWhile (\<lambda>c. c \<noteq> sep) (rev s))), rev (takeWhile (\<lambda>c. c \<noteq> sep) (rev s))]
      else [s])"

definition is_ascii :: "string \<Rightarrow> bool" where
  "is_ascii s = list_all (\<lambda>c. (of_char c :: nat) < 128) s"

text \<open>
  \<^verbatim>\<open>hmac.compare_digest(a, b)\<close> on two strings raises \<^verbatim>\<open>TypeError\<close> unless both
  are ASCII, and otherwise tells (in constant time) whether they are equal.
\<close>

definition compare_digest :: "string \<Rightarrow> string \<Rightarrow> py_exception + bool" where
  "compare_digest a b = (if is_ascii a \<and> is_ascii b then Inr (a = b) else Inl TypeError)"

section \<open>State token service: \<^verbatim>\<open>OAuthStateManager\<close> (app/core/security.py)\<close>

text \<open>
  The keyed hash \<^verbatim>\<open>hmac.new(key, msg, hashlib.sha256).digest()\<close> is a function of
  the key and the message; every definition below takes it as the parameter
  \<open>hmac_sha256\<close>, and every theorem holds whatever function stands there.
\<close>

type_synonym hmac_fn = "byte list \<Rightarrow> byte list \<Rightarrow> byte list"

record OAuthStateManager =
  secret_key :: "byte list"
  ttl_seconds :: int

text \<open>\<^verbatim>\<open>__init__(self, secret_key, ttl_seconds=600)\<close>.\<close>

definition OAuthStateManager_init :: "string \<Rightarrow> int \<Rightarrow> OAuthStateManager" where
  "OAuthStateManager_init key ttl = \<lparr>secret_key = utf8_encode key, ttl_seconds = ttl\<rparr>"

text \<open>\<^verbatim>\<open>_sign\<close>: the first 32 hexadecimal digits of the keyed hash of the payload.\<close>

definition sign :: "hmac_fn \<Rightarrow> OAuthStateManager \<Rightarrow> string \<Rightarrow> string" where
  "sign hmac_sha256 mgr payload =
     take 32 (hexdigest (hmac_sha256 (secret_key mgr) (utf8_encode payload)))"

text \<open>
  \<^verbatim>\<open>generate_state\<close>.  Its two reads of the environment are arguments: the 16 random
  bytes behind \<^verbatim>\<open>secrets.token_urlsafe(16)\<close> and the clock
  \<^verbatim>\<open>int(datetime.now(timezone.utc).timestamp())\<close>.
\<close>

definition generate_state ::
  "hmac_fn \<Rightarrow> OAuthStateManager \<Rightarrow> byte list \<Rightarrow> int \<Rightarrow> string \<Rightarrow> string"
where
  "generate_state hmac_sha256 mgr random_bytes now user_id =
     (let random_part = token_urlsafe random_bytes;
          timestamp = now;
          payload = random_part @ ''.'' @ user_id @ ''.'' @ py_str_int timestamp;
          signature = sign hmac_sha256 mgr payload
      in payload @ ''.'' @ signature)"

text \<open>
  The body of the \<^verbatim>\<open>try\<close> block of \<^verbatim>\<open>validate_state\<close>: it returns a user id,
  returns \<^verbatim>\<open>None\<close>, or raises.  \<open>now\<close> is the clock read at validation.
\<close>

definition validate_state_body ::
  "hmac_fn \<Rightarrow> OAuthStateManager \<Rightarrow> int \<Rightarrow> string \<Rightarrow> py_exception + string option"
where
  "validate_state_body hmac_sha256 mgr now state =
     (case py_rsplit1 CHR ''.'' state of
        [payload, signature] \<Rightarrow>
          (case compare_digest signature (sign hmac_sha256 mgr payload) of
             Inl e \<Rightarrow> Inl e
           | Inr matches \<Rightarrow>
               if \<not> matches then Inr None
               else
                 (case py_split CHR ''.'' payload of
                    [_, user_id, timestamp_str] \<Rightarrow>
                      (case py_int timestamp_str of
                         Inl e \<Rightarrow> Inl e
                       | Inr timestamp \<Rightarrow>
                           if now - timestamp > ttl_seconds mgr then Inr None
                           else Inr (Some user_id))
                  | _ \<Rightarrow> Inr None))
      | _ \<Rightarrow> Inr None)"

text \<open>
  \<^verbatim>\<open>validate_state\<close>: the body under \<^verbatim>\<open>try: ... except Exception: return None\<close>.
\<close>

definition validate_state ::
  "hmac_fn \<Rightarrow> OAuthStateManager \<Rightarrow> int \<Rightarrow> string \<Rightarrow> string option"
where
  "validate_state hmac_sha256 mgr now state =
     (case validate_state_body hmac_sha256 mgr now state of
        Inl e \<Rightarrow> None
      | Inr result \<Rightarrow> result)"

text \<open>
  A keyed digest to put in the place of \<open>hmac_sha256\<close> where an example needs a
  concrete function: 32 bytes that depend on the key and on the message.  Nothing below
  is proved about it alone; the examples hold for every function in its place.
\<close>

definition sample_hmac :: hmac_fn where
  "sample_hmac key msg =
     map (\<lambda>i. of_nat (i * 7 + sum_list (map unat key) + 3 * sum_list (map unat msg)))
       [0 ..< 32]"

text \<open>
  The state manager of tests/test\_security.py (\<^verbatim>\<open>secret_key="test-secret-key"\<close>,
  \<^verbatim>\<open>ttl_seconds=600\<close>) and sixteen bytes to stand for one draw of the random source.
\<close>

definition test_state_manager :: OAuthStateManager where
  "test_state_manager = OAuthStateManager_init ''test-secret-key'' 600"

definition test_random_bytes :: "byte list" where
  "test_random_bytes = [1, 2, 3, 4, 5, 6, 7, 8, 9, 10, 11, 12, 13, 14, 15, 255]"

section \<open>Credential vault: \<^verbatim>\<open>TokenEncryptor\<close> (app/core/security.py)\<close>

subsection \<open>\<^verbatim>\<open>base64.b64decode\<close>\<close>

fun index_of :: "'a \<Rightarrow> 'a list \<Rightarrow> nat option" where
  "index_of x [] = None"
| "index_of x (y # ys) = (if x = y then Some 0 else map_option Suc (index_of x ys))"

text \<open>The six-bit value of a character of the alphabet; no value for any other character.\<close>

definition b64_value :: "char \<Rightarrow> nat option" where
  "b64_value c = index_of c b64_alphabet"

text \<open>
  The loop of \<^verbatim>\<open>binascii.a2b_base64\<close> without \<^verbatim>\<open>strict_mode\<close>, as
  \<^verbatim>\<open>base64.b64decode(s)\<close> calls it.  Its state is the position in the current group
  of four characters (\<open>quad_pos\<close>), the bits left over from the previous character
  (\<open>leftchar\<close>), the number of padding characters seen in a row (\<open>pads\<close>) and the
  bytes written so far.  A character outside the alphabet is skipped; \<open>=\<close> ends the
  input once it completes a group that has at least two characters, and is skipped
  otherwise; input that ends inside a group raises \<^verbatim>\<open>binascii.Error\<close>.
\<close>

fun a2b_base64 :: "string \<Rightarrow> nat \<Rightarrow> nat \<Rightarrow> nat \<Rightarrow> byte list \<Rightarrow> py_exception + byte list" where
  "a2b_base64 [] quad_pos leftchar pads bin_data =
     (if quad_pos \<noteq> 0 then Inl BinasciiError else Inr bin_data)"
| "a2b_base64 (this_ch # rest) quad_pos leftchar pads bin_data =
     (if this_ch = CHR ''='' then
        (if quad_pos \<ge> 2 \<and> quad_pos + (pads + 1) \<ge> 4 then Inr bin_data
         else a2b_base64 rest quad_pos leftchar (if quad_pos \<ge> 2 then pads + 1 else pads) bin_data)
      else
        (case b64_value this_ch of
           None \<Rightarrow> a2b_base64 rest quad_pos leftchar pads bin_data
         | Some v \<Rightarrow>
             if quad_pos = 0 then a2b_base64 rest 1 v 0 bin_data
             else if quad_pos = 1 then
               a2b_base64 rest 2 (v mod 16) 0 (bin_data @ [of_nat (leftchar * 4 + v div 16)])
             else if quad_pos = 2 then
               a2b_base64 rest 3 (v mod 4) 0 (bin_data @ [of_nat (leftchar * 16 + v div 4)])
             else
               a2b_base64 rest 0 0 0 (bin_data @ [of_nat (leftchar * 64 + v)])))"

text \<open>
  \<^verbatim>\<open>base64.b64decode(s)\<close> for a string: \<^verbatim>\<open>ValueError\<close> if \<open>s\<close> has a
  non-ASCII character, the decoder's result otherwise.
\<close>

definition b64decode :: "string \<Rightarrow> py_exception + byte list" where
  "b64decode s = (if \<not> is_ascii s then Inl ValueError else a2b_base64 s 0 0 0 [])"

subsection \<open>\<^verbatim>\<open>bytes.decode("utf-8")\<close>\<close>

text \<open>
  The inverse of \<open>utf8_encode\<close>: one byte below 128, or a lead byte \<open>0xC2\<close> or
  \<open>0xC3\<close> with one continuation byte, give the code points below 256.  Every other
  byte sequence either is malformed or encodes a code point that the text model does not
  hold; it is reported as \<^verbatim>\<open>UnicodeDecodeError\<close>.
\<close>

fun utf8_decode :: "byte list \<Rightarrow> py_exception + string" where
  "utf8_decode [] = Inr []"
| "utf8_decode (b # bs) =
     (if unat b < 128 then
        (case utf8_decode bs of Inl e \<Rightarrow> Inl e | Inr s \<Rightarrow> Inr (char_of (unat b) # s))
      else if unat b = 194 \<or> unat b = 195 then
        (case bs of
           [] \<Rightarrow> Inl UnicodeDecodeError
         | c # cs \<Rightarrow>
             if 128 \<le> unat c \<and> unat c < 192 then
               (case utf8_decode cs of
                  Inl e \<Rightarrow> Inl e
                | Inr s \<Rightarrow> Inr (char_of ((unat b - 192) * 64 + (unat c - 128)) # s))
             else Inl UnicodeDecodeError)
      else Inl UnicodeDecodeError)"

subsection \<open>The exceptions of app/core/exceptions.py\<close>

text \<open>
  One constructor for each exception class the services raise, with the arguments of
  its \<^verbatim>\<open>__init__\<close>; \<open>TokenEncryptionError\<close> carries the operation and, for the
  reason \<^verbatim>\<open>str(e)\<close>, the exception it wraps.  \<open>ProviderException\<close> stands for
  whatever an outbound call to the provider's client library raises.
\<close>

datatype error =
    UnauthorizedError string
  | TokenNotFoundError string
  | TokenExpiredError string string
  | TokenEncryptionError string py_exception
  | GoogleAPIError string
  | OAuthStateError string
  | CalendarNotConnectedError string
  | ProviderException string

fun exception_name :: "error \<Rightarrow> string" where
  "exception_name (UnauthorizedError _) = ''UnauthorizedError''"
| "exception_name (TokenNotFoundError _) = ''TokenNotFoundError''"
| "exception_name (TokenExpiredError _ _) = ''TokenExpiredError''"
| "exception_name (TokenEncryptionError _ _) = ''TokenEncryptionError''"
| "exception_name (GoogleAPIError _) = ''GoogleAPIError''"
| "exception_name (OAuthStateError _) = ''OAuthStateError''"
| "exception_name (CalendarNotConnectedError _) = ''CalendarNotConnectedError''"
| "exception_name (ProviderException _) = ''Exception''"

subsection \<open>\<^verbatim>\<open>TokenEncryptor\<close>\<close>

text \<open>
  The authenticated cipher \<^verbatim>\<open>AESGCM\<close> of the cryptography library, as the two
  functions the vault calls, each of the key, the nonce and the data (the associated
  data is always \<^verbatim>\<open>None\<close>).  Decryption raises \<^verbatim>\<open>InvalidTag\<close> when the tag does
  not authenticate the data.  The definitions take the cipher as a parameter.
\<close>

record cipher =
  gcm_encrypt :: "byte list \<Rightarrow> byte list \<Rightarrow> byte list \<Rightarrow> byte list"
  gcm_decrypt :: "byte list \<Rightarrow> byte list \<Rightarrow> byte list \<Rightarrow> py_exception + byte list"

text \<open>
  What \<^verbatim>\<open>__init__\<close> stores: the 32-byte master key given to \<^verbatim>\<open>AESGCM\<close> and the
  key id.
\<close>

record TokenEncryptor =
  master_key :: "byte list"
  key_id :: string

text \<open>
  \<^verbatim>\<open>encrypt\<close>.  The twelve bytes of \<^verbatim>\<open>os.urandom(12)\<close> are the argument
  \<open>nonce\<close>.  No call of the \<^verbatim>\<open>try\<close> block raises on a string of this model, so
  the result is never the \<^verbatim>\<open>TokenEncryptionError("encryption", ...)\<close> of its
  \<^verbatim>\<open>except\<close> clause.
\<close>

definition encrypt ::
  "cipher \<Rightarrow> TokenEncryptor \<Rightarrow> byte list \<Rightarrow> string \<Rightarrow> error + (string \<times> string \<times> string)"
where
  "encrypt c self nonce plaintext =
     (let ciphertext = gcm_encrypt c (master_key self) nonce (utf8_encode plaintext)
      in Inr (b64encode ciphertext, b64encode nonce, key_id self))"

text \<open>
  \<^verbatim>\<open>decrypt\<close>: each call of the \<^verbatim>\<open>try\<close> block may raise, and the
  \<^verbatim>\<open>except\<close> clause turns every exception into
  \<^verbatim>\<open>TokenEncryptionError("decryption", str(e))\<close>.
\<close>

definition decrypt :: "cipher \<Rightarrow> TokenEncryptor \<Rightarrow> string \<Rightarrow> string \<Rightarrow> error + string" where
  "decrypt c self ciphertext_b64 nonce_b64 =
     (case b64decode ciphertext_b64 of
        Inl e \<Rightarrow> Inl (TokenEncryptionError ''decryption'' e)
      | Inr ciphertext \<Rightarrow>
          (case b64decode nonce_b64 of
             Inl e \<Rightarrow> Inl (TokenEncryptionError ''decryption'' e)
           | Inr nonce \<Rightarrow>
               (case gcm_decrypt c (master_key self) nonce ciphertext of
                  Inl e \<Rightarrow> Inl (TokenEncryptionError ''decryption'' e)
                | Inr plaintext \<Rightarrow>
                    (case utf8_decode plaintext of
                       Inl e \<Rightarrow> Inl (TokenEncryptionError ''decryption'' e)
                     | Inr s \<Rightarrow> Inr s))))"


subsection \<open>A cipher and an encryptor for examples\<close>

text \<open>
  A cipher of the same interface to put in the place of \<^verbatim>\<open>AESGCM\<close> where an example
  needs a concrete one: it masks every byte with a byte derived from key and nonce and
  appends a 16-byte tag derived from key, nonce and data; decryption recomputes the tag
  and raises \<^verbatim>\<open>InvalidTag\<close> if it differs, and \<^verbatim>\<open>ValueError\<close> for a nonce shorter
  than 8 bytes.  It is correct in the sense of \<open>cipher_correct\<close> and makes no claim to
  secrecy.
\<close>

definition sample_mask :: "byte list \<Rightarrow> byte list \<Rightarrow> byte" where
  "sample_mask key nonce = fold (\<lambda>b acc. acc + b) (key @ nonce) 0"

definition sample_tag :: "byte list \<Rightarrow> byte list \<Rightarrow> byte list \<Rightarrow> byte list" where
  "sample_tag key nonce data =
     (let t = fold (\<lambda>b acc. acc + b + 1) data (sample_mask key nonce)
      in [t, t + 1, t + 2, t + 3, t + 4, t + 5, t + 6, t + 7,
          t + 8, t + 9, t + 10, t + 11, t + 12, t + 13, t + 14, t + 15])"

definition sample_cipher :: cipher where
  "sample_cipher =
     \<lparr>gcm_encrypt = (\<lambda>key nonce data.
        map (\<lambda>b. b + sample_mask key nonce) data @ sample_tag key nonce data),
      gcm_decrypt = (\<lambda>key nonce ciphertext.
        if length nonce < 8 then Inl ValueError
        else if length ciphertext < 16 then Inl InvalidTag
        else
          let n = length ciphertext - 16;
              data = map (\<lambda>b. b - sample_mask key nonce) (take n ciphertext)
          in if drop n ciphertext = sample_tag key nonce data then Inr data
             else Inl InvalidTag)\<rparr>"

text \<open>A 32-byte key, its encryptor, and a 12-byte nonce.\<close>

definition test_key :: "byte list" where
  "test_key = [116, 101, 115, 116, 107, 101, 121, 116, 104, 97, 116, 105, 115, 116, 104, 105,
               114, 116, 121, 116, 119, 111, 98, 121, 116, 101, 115, 120, 120, 120, 120, 120]"

definition test_encryptor :: TokenEncryptor where
  "test_encryptor = \<lparr>master_key = test_key, key_id = ''a1b2c3d4''\<rparr>"

definition test_nonce :: "byte list" where
  "test_nonce = [0, 1, 2, 3, 4, 5, 6, 7, 8, 9, 10, 11]"

section \<open>Credential store: \<^verbatim>\<open>TokenRepository\<close> (app/db/repositories.py, app/db/models.py)\<close>

text \<open>
  \<^verbatim>\<open>GoogleCalendarTokenCreate\<close> and \<^verbatim>\<open>GoogleCalendarToken\<close> of app/db/models.py; the
  second has the fields of the first and the columns the store maintains.  A
  \<^verbatim>\<open>datetime\<close> is a number of seconds.  The columns the database fills by itself
  (\<^verbatim>\<open>id\<close>, \<^verbatim>\<open>created_at\<close>) are left out.
\<close>

record GoogleCalendarTokenCreate =
  user_id :: string
  organization_id :: "string option"
  google_email :: string
  google_account_id :: string
  encrypted_refresh_token :: string
  encryption_nonce :: string
  encryption_key_id :: string
  access_token_expires_at :: "int option"
  scopes_granted :: "string list"

record GoogleCalendarToken = GoogleCalendarTokenCreate +
  is_active :: bool
  last_sync_at :: "int option"
  last_error :: "string option"
  connected_at :: "int option"
  revoked_at :: "int option"
  updated_at :: "int option"

text \<open>
  What a request does to the outside, in order: the calls to the provider, the calls to
  the vault and the writes to the store.
\<close>

datatype effect =
    ProviderExchangeCode string
  | ProviderUserInfo string
  | ProviderRefresh string
  | ProviderRevoke string
  | VaultEncrypt
  | VaultDecrypt
  | StoreCreate string
  | StoreDelete string
  | StoreUpdateExpiry string
  | StoreMarkRevoked string
  | StoreSetError string

text \<open>
  The state the services act on: the rows of the table \<^verbatim>\<open>google_calendar_tokens\<close>
  and the effects so far.  The store is taken to execute every query it is sent; the
  \<^verbatim>\<open>except\<close> branches of the repository for a store that cannot be reached are
  not modelled, except for \<^verbatim>\<open>.single()\<close>, which raises unless exactly one row
  matches.
\<close>

record world =
  tokens :: "GoogleCalendarToken list"
  effects :: "effect list"

definition log_effect :: "world \<Rightarrow> effect \<Rightarrow> world" where
  "log_effect w e = w\<lparr>effects := effects w @ [e]\<rparr>"

text \<open>
  \<^verbatim>\<open>get_by_user_id\<close>: \<^verbatim>\<open>.eq("user_id", user_id).eq("is_active", True).single()\<close>;
  \<^verbatim>\<open>None\<close> when \<^verbatim>\<open>.single()\<close> raises.
\<close>

definition get_by_user_id :: "world \<Rightarrow> string \<Rightarrow> GoogleCalendarToken option" where
  "get_by_user_id w uid =
     (case filter (\<lambda>r. user_id r = uid \<and> is_active r) (tokens w) of
        [r] \<Rightarrow> Some r
      | _ \<Rightarrow> None)"

definition get_by_google_account :: "world \<Rightarrow> string \<Rightarrow> GoogleCalendarToken option" where
  "get_by_google_account w account =
     (case filter (\<lambda>r. google_account_id r = account \<and> is_active r) (tokens w) of
        [r] \<Rightarrow> Some r
      | _ \<Rightarrow> None)"

text \<open>
  \<^verbatim>\<open>create\<close>: the inserted row has \<^verbatim>\<open>connected_at\<close> set to the clock; the other
  columns take their defaults (\<^verbatim>\<open>is_active\<close> true, the rest null).
\<close>

definition create :: "world \<Rightarrow> int \<Rightarrow> GoogleCalendarTokenCreate \<Rightarrow> world" where
  "create w now data =
     log_effect
       (w\<lparr>tokens := tokens w @
          [\<lparr>user_id = user_id data,
            organization_id = organization_id data,
            google_email = google_email data,
            google_account_id = google_account_id data,
            encrypted_refresh_token = encrypted_refresh_token data,
            encryption_nonce = encryption_nonce data,
            encryption_key_id = encryption_key_id data,
            access_token_expires_at = access_token_expires_at data,
            scopes_granted = scopes_granted data,
            is_active = True,
            last_sync_at = None,
            last_error = None,
            connected_at = Some now,
            revoked_at = None,
            updated_at = None\<rparr>]\<rparr>)
       (StoreCreate (user_id data))"

text \<open>
  The updates select by \<^verbatim>\<open>.eq("user_id", user_id)\<close> alone: they change every row
  of the user, active or not.
\<close>

definition update_rows ::
  "world \<Rightarrow> string \<Rightarrow> (GoogleCalendarToken \<Rightarrow> GoogleCalendarToken) \<Rightarrow> world"
where
  "update_rows w uid f = w\<lparr>tokens := map (\<lambda>r. if user_id r = uid then f r else r) (tokens w)\<rparr>"

definition update_expiry :: "world \<Rightarrow> int \<Rightarrow> string \<Rightarrow> int \<Rightarrow> world" where
  "update_expiry w now uid expires_at =
     log_effect
       (update_rows w uid
          (\<lambda>r. r\<lparr>access_token_expires_at := Some expires_at, updated_at := Some now\<rparr>))
       (StoreUpdateExpiry uid)"

definition mark_revoked :: "world \<Rightarrow> int \<Rightarrow> string \<Rightarrow> world" where
  "mark_revoked w now uid =
     log_effect
       (update_rows w uid
          (\<lambda>r. r\<lparr>is_active := False, revoked_at := Some now, updated_at := Some now\<rparr>))
       (StoreMarkRevoked uid)"

definition delete :: "world \<Rightarrow> string \<Rightarrow> world" where
  "delete w uid =
     log_effect (w\<lparr>tokens := filter (\<lambda>r. user_id r \<noteq> uid) (tokens w)\<rparr>) (StoreDelete uid)"

definition set_error :: "world \<Rightarrow> int \<Rightarrow> string \<Rightarrow> string \<Rightarrow> world" where
  "set_error w now uid err =
     log_effect
       (update_rows w uid (\<lambda>r. r\<lparr>last_error := Some err, updated_at := Some now\<rparr>))
       (StoreSetError uid)"

section \<open>Token lifecycle: \<^verbatim>\<open>AuthService\<close> and \<^verbatim>\<open>CalendarService\<close>\<close>

text \<open>
  The provider, as the functions of app/core/google\_client.py the services call: each
  gives the provider's answer to a call, an exception included.
\<close>

record oauth_tokens =
  access_token :: string
  refresh_token :: "string option"
  expires_at :: "int option"
  scopes :: "string list"

record google_user =
  email :: string
  id' :: string

record provider =
  exchange_code :: "string \<Rightarrow> error + oauth_tokens"
  get_user_info :: "string \<Rightarrow> error + google_user"
  revoke_token :: "string \<Rightarrow> error + bool"

text \<open>\<^verbatim>\<open>CallbackResponse(success, user_id, google_email, message)\<close> and
  \<^verbatim>\<open>RevokeResponse(success, message)\<close> of app/schemas/auth.py.\<close>

datatype CallbackResponse = CallbackResponse bool string string string

datatype RevokeResponse = RevokeResponse bool string

text \<open>
  The second half of \<^verbatim>\<open>handle_callback\<close>, after the ownership check: encrypt the
  refresh token, replace the user's record if there is one, create the new record.
  \<^verbatim>\<open>tokens["refresh_token"]\<close> is \<^verbatim>\<open>None\<close> when the provider returned no refresh
  token; \<^verbatim>\<open>encrypt\<close> then fails on \<^verbatim>\<open>plaintext.encode\<close>.
\<close>

definition store_connection ::
  "cipher \<Rightarrow> TokenEncryptor \<Rightarrow> byte list \<Rightarrow> int \<Rightarrow> string \<Rightarrow> oauth_tokens \<Rightarrow> google_user
   \<Rightarrow> world \<Rightarrow> (error + CallbackResponse) \<times> world"
where
  "store_connection c encryptor nonce now uid tokens_dict user_info w =
     (let w1 = log_effect w VaultEncrypt
      in case (case refresh_token tokens_dict of
                 None \<Rightarrow> Inl (TokenEncryptionError ''encryption'' AttributeError)
               | Some plaintext \<Rightarrow> encrypt c encryptor nonce plaintext) of
           Inl e \<Rightarrow> (Inl e, w1)
         | Inr (encrypted_token, nonce_b64, kid) \<Rightarrow>
             let token_data =
                   \<lparr>user_id = uid,
                    organization_id = None,
                    google_email = email user_info,
                    google_account_id = id' user_info,
                    encrypted_refresh_token = encrypted_token,
                    encryption_nonce = nonce_b64,
                    encryption_key_id = kid,
                    access_token_expires_at = expires_at tokens_dict,
                    scopes_granted = scopes tokens_dict\<rparr>;
                 w2 = (case get_by_user_id w1 uid of
                         Some existing_user_token \<Rightarrow> delete w1 uid
                       | None \<Rightarrow> w1);
                 w3 = create w2 now token_data
             in (Inr (CallbackResponse True uid (email user_info)
                        ''Google Calendar connected successfully''), w3))"

text \<open>
  \<^verbatim>\<open>AuthService.handle_callback\<close>.  \<^verbatim>\<open>self.state_manager\<close>, \<^verbatim>\<open>self.encryptor\<close>
  and the provider behind \<^verbatim>\<open>self.oauth_flow\<close> are the arguments \<open>mgr\<close>,
  \<open>encryptor\<close> and \<open>google\<close>; \<open>nonce\<close> is the draw of \<^verbatim>\<open>os.urandom(12)\<close> and
  \<open>now\<close> the clock.  \<^verbatim>\<open>if not user_id\<close> holds for \<^verbatim>\<open>None\<close> and for the empty
  string.
\<close>

definition handle_callback ::
  "hmac_fn \<Rightarrow> cipher \<Rightarrow> OAuthStateManager \<Rightarrow> TokenEncryptor \<Rightarrow> provider \<Rightarrow> byte list \<Rightarrow> int
   \<Rightarrow> string \<Rightarrow> string \<Rightarrow> world \<Rightarrow> (error + CallbackResponse) \<times> world"
where
  "handle_callback hmac_sha256 c mgr encryptor google nonce now code state w =
     (case validate_state hmac_sha256 mgr now state of
        None \<Rightarrow> (Inl (OAuthStateError ''Invalid or expired state parameter''), w)
      | Some uid \<Rightarrow>
          if uid = [] then (Inl (OAuthStateError ''Invalid or expired state parameter''), w)
          else
            let w1 = log_effect w (ProviderExchangeCode code)
            in case exchange_code google code of
                 Inl e \<Rightarrow> (Inl e, w1)
               | Inr tokens_dict \<Rightarrow>
                   let w2 = log_effect w1 (ProviderUserInfo (access_token tokens_dict))
                   in case get_user_info google (access_token tokens_dict) of
                        Inl e \<Rightarrow> (Inl e, w2)
                      | Inr user_info \<Rightarrow>
                          if (case get_by_google_account w2 (id' user_info) of
                                Some existing \<Rightarrow> user_id existing \<noteq> uid
                              | None \<Rightarrow> False)
                          then (Inl (OAuthStateError
                                  ''This Google account is already connected to another user''), w2)
                          else store_connection c encryptor nonce now uid tokens_dict user_info w2)"

text \<open>
  \<^verbatim>\<open>AuthService.revoke_connection\<close>.  The \<^verbatim>\<open>try\<close> block decrypts the refresh token
  and calls the provider; whatever either raises is logged and dropped, and the result
  of the provider call is not used.
\<close>

definition revoke_connection ::
  "cipher \<Rightarrow> TokenEncryptor \<Rightarrow> provider \<Rightarrow> int \<Rightarrow> string \<Rightarrow> world \<Rightarrow> RevokeResponse \<times> world"
where
  "revoke_connection c encryptor google now uid w =
     (case get_by_user_id w uid of
        None \<Rightarrow> (RevokeResponse False ''No Google Calendar connection found'', w)
      | Some token_row \<Rightarrow>
          let w1 = log_effect w VaultDecrypt;
              w2 = (case decrypt c encryptor (encrypted_refresh_token token_row)
                           (encryption_nonce token_row) of
                      Inl e \<Rightarrow> w1
                    | Inr refresh_tok \<Rightarrow>
                        (case revoke_token google refresh_tok of
                           Inl e \<Rightarrow> log_effect w1 (ProviderRevoke refresh_tok)
                         | Inr revoked \<Rightarrow> log_effect w1 (ProviderRevoke refresh_tok)));
              w3 = mark_revoked w2 now uid
          in (RevokeResponse True ''Google Calendar disconnected successfully'', w3))"

text \<open>
  What \<^verbatim>\<open>credentials.refresh(Request())\<close> raises: a \<^verbatim>\<open>RefreshError\<close> when the
  provider refuses the refresh token, a \<^verbatim>\<open>TransportError\<close> when the request fails or
  times out.  Both are exceptions; \<open>failure_text\<close> is \<^verbatim>\<open>str(e)\<close>.
\<close>

datatype refresh_failure = RefreshError string | TransportError string

fun failure_text :: "refresh_failure \<Rightarrow> string" where
  "failure_text (RefreshError msg) = msg"
| "failure_text (TransportError msg) = msg"

record credentials =
  token :: string
  expiry :: "int option"

text \<open>\<^verbatim>\<open>GoogleCalendarClient(access_token, refresh_token, user_id)\<close>.\<close>

datatype GoogleCalendarClient = GoogleCalendarClient string string string

text \<open>
  \<^verbatim>\<open>CalendarService._get_calendar_client\<close>.  \<open>refresh_result\<close> is the provider's
  answer to this request's call of \<^verbatim>\<open>credentials.refresh\<close>.  The code reads no
  expiry and takes no lock: every request that finds the record and decrypts the
  refresh token calls the provider.
\<close>

definition get_calendar_client ::
  "cipher \<Rightarrow> TokenEncryptor \<Rightarrow> refresh_failure + credentials \<Rightarrow> int \<Rightarrow> string \<Rightarrow> world
   \<Rightarrow> (error + GoogleCalendarClient) \<times> world"
where
  "get_calendar_client c encryptor refresh_result now uid w =
     (case get_by_user_id w uid of
        None \<Rightarrow> (Inl (CalendarNotConnectedError uid), w)
      | Some token_row \<Rightarrow>
          let w1 = log_effect w VaultDecrypt
          in case decrypt c encryptor (encrypted_refresh_token token_row)
                    (encryption_nonce token_row) of
               Inl e \<Rightarrow> (Inl e, w1)
             | Inr refresh_tok \<Rightarrow>
                 let w2 = log_effect w1 (ProviderRefresh uid)
                 in case refresh_result of
                      Inl e \<Rightarrow>
                        (Inl (TokenExpiredError uid ''Failed to refresh access token''),
                         set_error w2 now uid (failure_text e))
                    | Inr creds \<Rightarrow>
                        let w3 = (case expiry creds of
                                    Some t \<Rightarrow> update_expiry w2 now uid t
                                  | None \<Rightarrow> w2)
                        in (Inr (GoogleCalendarClient (token creds) refresh_tok uid), w3))"

text \<open>
  Requests for the same user, one for each given answer of the provider.  Each runs to
  its end before the next: the coroutine never suspends between reading the record and
  writing the result (the repository methods contain no \<^verbatim>\<open>await\<close>, and
  \<^verbatim>\<open>credentials.refresh\<close> is a blocking call), so requests that arrive together are
  served one after another.
\<close>

fun serve_requests ::
  "cipher \<Rightarrow> TokenEncryptor \<Rightarrow> (refresh_failure + credentials) list \<Rightarrow> int \<Rightarrow> string \<Rightarrow> world
   \<Rightarrow> world"
where
  "serve_requests c encryptor [] now uid w = w"
| "serve_requests c encryptor (refresh_result # later) now uid w =
     serve_requests c encryptor later now uid
       (snd (get_calendar_client c encryptor refresh_result now uid w))"

text \<open>The outbound refresh calls for a user among the effects.\<close>

definition refresh_calls :: "world \<Rightarrow> string \<Rightarrow> nat" where
  "refresh_calls w uid = count_list (effects w) (ProviderRefresh uid)"

subsection \<open>A store and a provider for examples\<close>

text \<open>
  One active record: user \<open>alice\<close> owns the provider account \<open>g-1\<close>; its secret
  fields are the encryption of \<open>tok\<close> under the example cipher and key.
\<close>

definition alice_row :: GoogleCalendarToken where
  "alice_row =
     \<lparr>user_id = ''alice'',
      organization_id = None,
      google_email = ''alice@example.com'',
      google_account_id = ''g-1'',
      encrypted_refresh_token = ''ycTApqeoqaqrrK2ur7CxsrO0tQ=='',
      encryption_nonce = ''AAECAwQFBgcICQoL'',
      encryption_key_id = ''a1b2c3d4'',
      access_token_expires_at = None,
      scopes_granted = [''calendar''],
      is_active = True,
      last_sync_at = None,
      last_error = None,
      connected_at = Some 1690000000,
      revoked_at = None,
      updated_at = None\<rparr>"

definition test_world :: world where
  "test_world = \<lparr>tokens = [alice_row], effects = []\<rparr>"

text \<open>
  A provider that exchanges every code for tokens of the account \<open>g-1\<close> and whose
  revocation endpoint fails.
\<close>

definition test_provider :: provider where
  "test_provider =
     \<lparr>exchange_code = (\<lambda>code. Inr \<lparr>access_token = ''ya29.a'', refresh_token = Some ''1//r'',
                                     expires_at = Some 1700003600, scopes = [''calendar'']\<rparr>),
      get_user_info = (\<lambda>tok. Inr \<lparr>email = ''alice@example.com'', id' = ''g-1''\<rparr>),
      revoke_token = (\<lambda>tok. Inl (ProviderException ''connection reset''))\<rparr>"

section \<open>Availability calculator: the walk yields the complement\<close>

subsection \<open>The loop and the specification's walk\<close>

lemma walk_busy_acc:
  "walk_busy bs acc cur = (acc @ fst (walk_busy bs [] cur), snd (walk_busy bs [] cur))"
proof (induction bs arbitrary: acc cur)
  case Nil
  show ?case by simp
next
  case (Cons b bs)
  let ?cur' = "max cur (end' b)"
  show ?case
  proof (cases "cur < start b")
    case True
    have "walk_busy (b # bs) acc cur
          = walk_busy bs (acc @ [\<lparr>start = cur, end' = start b\<rparr>]) ?cur'"
      using True by simp
    also have "\<dots> = ((acc @ [\<lparr>start = cur, end' = start b\<rparr>]) @ fst (walk_busy bs [] ?cur'),
                     snd (walk_busy bs [] ?cur'))"
      by (rule Cons.IH)
    finally have l: "walk_busy (b # bs) acc cur
          = (acc @ \<lparr>start = cur, end' = start b\<rparr> # fst (walk_busy bs [] ?cur'),
             snd (walk_busy bs [] ?cur'))"
      by simp
    have "walk_busy (b # bs) [] cur = walk_busy bs [\<lparr>start = cur, end' = start b\<rparr>] ?cur'"
      using True by simp
    also have "\<dots> = ([\<lparr>start = cur, end' = start b\<rparr>] @ fst (walk_busy bs [] ?cur'),
                     snd (walk_busy bs [] ?cur'))"
      by (rule Cons.IH)
    finally show ?thesis using l by simp
  next
    case False
    then have "walk_busy (b # bs) acc cur = walk_busy bs acc ?cur'"
      and "walk_busy (b # bs) [] cur = walk_busy bs [] ?cur'"
      by simp_all
    then show ?thesis using Cons.IH [of acc ?cur'] by simp
  qed
qed

lemma walk_busy_spec_walk:
  "(let (free_slots, current_start) = walk_busy bs [] cur
    in if current_start < work_end
       then free_slots @ [\<lparr>start = current_start, end' = work_end\<rparr>]
       else free_slots)
   = spec_walk cur work_end bs"
proof (induction bs arbitrary: cur)
  case Nil
  show ?case by simp
next
  case (Cons b bs)
  let ?cur' = "max cur (end' b)"
  have step: "walk_busy (b # bs) [] cur
      = ((if cur < start b then [\<lparr>start = cur, end' = start b\<rparr>] else [])
           @ fst (walk_busy bs [] ?cur'),
         snd (walk_busy bs [] ?cur'))"
    using walk_busy_acc [of bs "[\<lparr>start = cur, end' = start b\<rparr>]" ?cur']
    by (simp add: case_prod_beta)
  have IH: "(if snd (walk_busy bs [] ?cur') < work_end
             then fst (walk_busy bs [] ?cur')
                  @ [\<lparr>start = snd (walk_busy bs [] ?cur'), end' = work_end\<rparr>]
             else fst (walk_busy bs [] ?cur'))
            = spec_walk ?cur' work_end bs"
    using Cons.IH [of ?cur'] by (simp add: case_prod_beta Let_def)
  show ?case
    unfolding step spec_walk.simps IH [symmetric] by (simp add: Let_def)
qed

lemma calculate_free_slots_refines:
  "calculate_free_slots busy work_start work_end = spec_free_slots busy work_start work_end"
  unfolding calculate_free_slots_def spec_free_slots_def
  using walk_busy_spec_walk [of "sort_key start busy" work_start work_end]
  by (simp add: Let_def)

subsection \<open>The walk over sorted busy intervals yields the complement\<close>

lemma covered_Nil [simp]: "covered [] t = False"
  by (simp add: covered_def)

lemma covered_Cons [simp]: "covered (s # ss) t = (in_slot t s \<or> covered ss t)"
  by (simp add: covered_def)

lemma covered_append [simp]: "covered (xs @ ys) t = (covered xs t \<or> covered ys t)"
  by (induction xs) auto

lemma covered_iff_set: "covered slots t = (\<exists>s \<in> set slots. in_slot t s)"
  by (simp add: covered_def list_ex_iff)

lemma covered_sort_key [simp]: "covered (sort_key f slots) t = covered slots t"
  by (simp add: covered_iff_set)

lemma spec_walk_covered:
  assumes "sorted (map start bs)" and "\<forall>b \<in> set bs. start b \<le> work_end"
  shows "covered (spec_walk cur work_end bs) t
         = (cur \<le> t \<and> t < work_end \<and> \<not> covered bs t)"
  using assms
proof (induction bs arbitrary: cur)
  case Nil
  show ?case by (auto simp: in_slot_def)
next
  case (Cons b bs)
  have later: "\<forall>c \<in> set bs. start b \<le> start c"
    using Cons.prems(1) by simp
  have IH: "covered (spec_walk (max cur (end' b)) work_end bs) t
            = (max cur (end' b) \<le> t \<and> t < work_end \<and> \<not> covered bs t)"
    using Cons.prems by (intro Cons.IH) simp_all
  have b_in: "start b \<le> work_end"
    using Cons.prems(2) by simp
  show ?case
  proof (cases "t < start b")
    case True
    then have "\<not> in_slot t b" and "\<not> covered bs t"
      using later by (auto simp: in_slot_def covered_iff_set)
    moreover have "t < work_end" and "\<not> end' b \<le> t \<or> \<not> cur \<le> t \<or> True"
      using True b_in by auto
    ultimately show ?thesis
      using True IH b_in by (auto simp: in_slot_def)
  next
    case False
    then show ?thesis
      using IH by (auto simp: in_slot_def)
  qed
qed

lemma spec_walk_starts_after_cursor:
  "s \<in> set (spec_walk cur work_end bs) \<Longrightarrow> cur \<le> start s"
proof (induction bs arbitrary: cur)
  case Nil
  then show ?case by (simp split: if_splits)
next
  case (Cons b bs)
  from Cons.prems consider
      (first) "s = \<lparr>start = cur, end' = start b\<rparr>"
    | (rest) "s \<in> set (spec_walk (max cur (end' b)) work_end bs)"
    by (auto split: if_splits)
  then show ?case
  proof cases
    case first
    then show ?thesis by simp
  next
    case rest
    then have "max cur (end' b) \<le> start s" by (rule Cons.IH)
    then show ?thesis by simp
  qed
qed

lemma spec_walk_nonempty_slots:
  "s \<in> set (spec_walk cur work_end bs) \<Longrightarrow> start s < end' s"
  by (induction bs arbitrary: cur) (auto split: if_splits)

lemma spec_walk_separated:
  assumes "\<forall>b \<in> set bs. start b < end' b"
  shows "sorted_wrt (\<lambda>a b. end' a < start b) (spec_walk cur work_end bs)"
  using assms
proof (induction bs arbitrary: cur)
  case Nil
  show ?case by simp
next
  case (Cons b bs)
  have tail: "sorted_wrt (\<lambda>a b. end' a < start b) (spec_walk (max cur (end' b)) work_end bs)"
    using Cons.prems by (intro Cons.IH) simp
  have gap: "start b < start s" if "s \<in> set (spec_walk (max cur (end' b)) work_end bs)" for s
  proof -
    have "max cur (end' b) \<le> start s"
      using that by (rule spec_walk_starts_after_cursor)
    moreover have "start b < end' b"
      using Cons.prems by simp
    ultimately show ?thesis by (auto intro: less_le_trans)
  qed
  show ?case
    using tail gap by (simp add: sorted_wrt_append)
qed

subsection \<open>Claim C1\<close>

text \<open>
  C1, as stated, for every busy list: the free slots are the complement of the busy
  intervals within the window.  This fails when a busy interval starts after
  \<open>work_end\<close>: the loop emits the slot \<open>[cursor, busy.start)\<close> without
  clamping it to the window.  With the window 09:00-18:00 and the busy interval
  19:00-20:00 the result is the single slot 09:00-19:00, so 18:30 is reported free
  although it lies outside the window.
\<close>

theorem calculate_free_slots_outside_window_counterexample:
  "calculate_free_slots [\<lparr>start = ''19:00'', end' = ''20:00''\<rparr>] ''09:00'' ''18:00''
     = [\<lparr>start = ''09:00'', end' = ''19:00''\<rparr>]
   \<and> covered (calculate_free_slots [\<lparr>start = ''19:00'', end' = ''20:00''\<rparr>] ''09:00'' ''18:00'')
         ''18:30''
   \<and> \<not> (''09:00'' \<le> ''18:30'' \<and> ''18:30'' < ''18:00''
        \<and> \<not> covered [\<lparr>start = ''19:00'', end' = ''20:00''\<rparr>] ''18:30'')"
  by (simp add: calculate_free_slots_def in_slot_def)

text \<open>
  C1, amended: for every busy list whose intervals have \<open>start < end\<close> and start no
  later than \<open>work_end\<close> (as the intervals of a free/busy query bounded by the window
  do), \<^verbatim>\<open>_calculate_free_slots\<close>
  \<^item> computes what the specification's algorithm describes (sort by start, walk with a
    cursor from \<open>work_start\<close>, emit \<open>[cursor, busy.start)\<close> when the interval starts
    after the cursor, advance to \<open>max cursor busy.end\<close>, emit the final
    \<open>[cursor, work_end)\<close> if the cursor is before \<open>work_end\<close>);
  \<^item> covers exactly the times of the window that no busy interval covers;
  \<^item> returns slots in order, each ending strictly before the next one starts;
  \<^item> returns the single slot \<open>[work_start, work_end]\<close> for an empty busy list;
  \<^item> returns only slots with \<open>start < end\<close>, unless the busy list is empty and the
    window itself is empty or inverted.
\<close>

theorem calculate_free_slots_complement:
  assumes "\<forall>b \<in> set busy. start b < end' b"
    and "\<forall>b \<in> set busy. start b \<le> work_end"
  shows "calculate_free_slots busy work_start work_end = spec_free_slots busy work_start work_end
    \<and> (\<forall>t. covered (calculate_free_slots busy work_start work_end) t
            = (work_start \<le> t \<and> t < work_end \<and> \<not> covered busy t))
    \<and> sorted_wrt (\<lambda>a b. end' a < start b) (calculate_free_slots busy work_start work_end)
    \<and> (busy = [] \<longrightarrow>
          calculate_free_slots busy work_start work_end
            = [\<lparr>start = work_start, end' = work_end\<rparr>])
    \<and> (busy \<noteq> [] \<or> work_start < work_end \<longrightarrow>
          (\<forall>s \<in> set (calculate_free_slots busy work_start work_end). start s < end' s))"
proof -
  let ?sorted = "sort_key start busy"
  have eq: "calculate_free_slots busy work_start work_end
            = spec_free_slots busy work_start work_end"
    by (rule calculate_free_slots_refines)
  have srt: "sorted (map start ?sorted)" by simp
  have in_window: "\<forall>b \<in> set ?sorted. start b \<le> work_end"
    using assms(2) by simp
  have proper: "\<forall>b \<in> set ?sorted. start b < end' b"
    using assms(1) by simp
  have cov: "covered (spec_free_slots busy work_start work_end) t
             = (work_start \<le> t \<and> t < work_end \<and> \<not> covered busy t)" for t
  proof (cases "busy = []")
    case True
    then show ?thesis by (simp add: spec_free_slots_def in_slot_def)
  next
    case False
    then show ?thesis
      using spec_walk_covered [OF srt in_window, of work_start t]
      by (simp add: spec_free_slots_def)
  qed
  have ord: "sorted_wrt (\<lambda>a b. end' a < start b) (spec_free_slots busy work_start work_end)"
    using spec_walk_separated [OF proper, of work_start work_end]
    by (simp add: spec_free_slots_def)
  have empty: "busy = [] \<longrightarrow>
      spec_free_slots busy work_start work_end = [\<lparr>start = work_start, end' = work_end\<rparr>]"
    by (simp add: spec_free_slots_def)
  have nonempty: "busy \<noteq> [] \<or> work_start < work_end \<longrightarrow>
      (\<forall>s \<in> set (spec_free_slots busy work_start work_end). start s < end' s)"
    by (auto simp: spec_free_slots_def dest: spec_walk_nonempty_slots)
  show ?thesis
    unfolding eq using cov ord empty nonempty by blast
qed

text \<open>
  The specification's example of overlapping busy intervals (10:00-11:30 and
  11:00-12:00 in the window 09:00-18:00): both hypotheses hold, and the free slots are
  09:00-10:00 and 12:00-18:00.
\<close>

theorem calculate_free_slots_complement_witness:
  "calculate_free_slots
       [\<lparr>start = ''10:00'', end' = ''11:30''\<rparr>, \<lparr>start = ''11:00'', end' = ''12:00''\<rparr>]
       ''09:00'' ''18:00''
     = [\<lparr>start = ''09:00'', end' = ''10:00''\<rparr>, \<lparr>start = ''12:00'', end' = ''18:00''\<rparr>]
   \<and> (\<forall>t. covered [\<lparr>start = ''09:00'', end' = ''10:00''\<rparr>, \<lparr>start = ''12:00'', end' = ''18:00''\<rparr>] t
          = (''09:00'' \<le> t \<and> t < ''18:00''
             \<and> \<not> covered [\<lparr>start = ''10:00'', end' = ''11:30''\<rparr>,
                            \<lparr>start = ''11:00'', end' = ''12:00''\<rparr>] t))"
proof -
  let ?busy = "[\<lparr>start = ''10:00'', end' = ''11:30''\<rparr>, \<lparr>start = ''11:00'', end' = ''12:00''\<rparr>]"
  have h1: "\<forall>b \<in> set ?busy. start b < end' b" by simp
  have h2: "\<forall>b \<in> set ?busy. start b \<le> ''18:00''" by simp
  have val: "calculate_free_slots ?busy ''09:00'' ''18:00''
     = [\<lparr>start = ''09:00'', end' = ''10:00''\<rparr>, \<lparr>start = ''12:00'', end' = ''18:00''\<rparr>]"
    by (simp add: calculate_free_slots_def)
  from calculate_free_slots_complement [OF h1 h2, of "''09:00''"]
  have "\<forall>t. covered (calculate_free_slots ?busy ''09:00'' ''18:00'') t
            = (''09:00'' \<le> t \<and> t < ''18:00'' \<and> \<not> covered ?busy t)"
    by blast
  then show ?thesis
    unfolding val by (simp only: simp_thms)
qed

section \<open>State token service: what the verifier accepts\<close>

subsection \<open>The characters of signatures and random parts\<close>

lemma hex_of_byte_set: "set (hex_of_byte b) \<subseteq> set hex_digits"
proof -
  have "unat b < 256" using unsigned_less [of b] by simp
  then have "unat b div 16 < 16" and "unat b mod 16 < 16" by auto
  moreover have "length hex_digits = 16" by (simp add: hex_digits_def)
  ultimately show ?thesis by (simp add: hex_of_byte_def)
qed

lemma hexdigest_set: "set (hexdigest bs) \<subseteq> set hex_digits"
  using hex_of_byte_set by (auto simp: hexdigest_def)

lemma sign_set: "set (sign h m p) \<subseteq> set hex_digits"
  unfolding sign_def using hexdigest_set set_take_subset by fastforce

lemma sign_no_dot: "CHR ''.'' \<notin> set (sign h m p)"
  using sign_set [of h m p] by (auto simp: hex_digits_def)

lemma sign_ascii: "is_ascii (sign h m p)"
  unfolding is_ascii_def list_all_iff
proof
  fix c assume "c \<in> set (sign h m p)"
  then have "c \<in> set hex_digits" using sign_set by blast
  then show "(of_char c :: nat) < 128" by (auto simp: hex_digits_def)
qed

lemma compare_digest_sign: "compare_digest (sign h m p) (sign h m p) = Inr True"
  by (simp add: compare_digest_def sign_ascii)

lemma b64_char_in: "n < 64 \<Longrightarrow> b64_char n \<in> set b64_alphabet"
proof -
  assume "n < 64"
  moreover have "length b64_alphabet = 64" by (simp add: b64_alphabet_def)
  ultimately show ?thesis by (simp add: b64_char_def)
qed

lemma byte_bounds:
  fixes b :: byte
  shows "unat b div 4 < 64" and "unat b mod 64 < 64" and "unat b div 16 < 16"
    and "unat b div 64 < 4"
proof -
  have "unat b < 256" using unsigned_less [of b] by simp
  then show "unat b div 4 < 64" and "unat b mod 64 < 64" and "unat b div 16 < 16"
    and "unat b div 64 < 4" by auto
qed

lemma b64encode_set: "set (b64encode bs) \<subseteq> insert CHR ''='' (set b64_alphabet)"
proof (induction bs rule: b64encode.induct)
  case (1 b1 b2 b3 rest)
  have "(unat b1 mod 4) * 16 + unat b2 div 16 < 64"
    using byte_bounds(3) [of b2] by arith
  moreover have "(unat b2 mod 16) * 4 + unat b3 div 64 < 64"
    using byte_bounds(4) [of b3] by arith
  ultimately show ?case
    using 1 byte_bounds(1) [of b1] byte_bounds(2) [of b3] by (auto intro: b64_char_in)
next
  case (2 b1 b2)
  have "(unat b1 mod 4) * 16 + unat b2 div 16 < 64"
    using byte_bounds(3) [of b2] by arith
  moreover have "(unat b2 mod 16) * 4 < 64" by arith
  ultimately show ?case
    using byte_bounds(1) [of b1] by (auto intro: b64_char_in)
next
  case (3 b1)
  have "(unat b1 mod 4) * 16 < 64" by arith
  then show ?case
    using byte_bounds(1) [of b1] by (auto intro: b64_char_in)
next
  case 4
  show ?case by simp
qed

lemma token_urlsafe_no_dot: "CHR ''.'' \<notin> set (token_urlsafe bs)"
proof -
  have "set (token_urlsafe bs) \<subseteq> set (urlsafe_b64encode bs)"
    unfolding token_urlsafe_def using set_dropWhileD by fastforce
  moreover have "CHR ''.'' \<notin> set (urlsafe_b64encode bs)"
    using b64encode_set [of bs] by (auto simp: urlsafe_b64encode_def b64_alphabet_def)
  ultimately show ?thesis by blast
qed

subsection \<open>Integers and their decimal text\<close>

lemma digit_char_props:
  assumes "d < 10"
  shows "is_digit (digit_char d)" and "digit_value (digit_char d) = d"
    and "\<not> is_space (digit_char d)" and "digit_char d \<noteq> CHR ''.''"
    and "digit_char d \<noteq> CHR ''-''" and "digit_char d \<noteq> CHR ''+''"
    and "digit_char d \<noteq> CHR ''_''"
proof -
  have code: "(of_char (digit_char d) :: nat) = 48 + d"
    using assms by (simp add: digit_char_def)
  show "is_digit (digit_char d)" using assms by (simp add: is_digit_def code)
  show "digit_value (digit_char d) = d" by (simp add: digit_value_def code)
  show "\<not> is_space (digit_char d)" using assms by (simp add: is_space_def code Let_def)
  have ne: "digit_char d \<noteq> c" if "(of_char c :: nat) < 48" for c
    using that code by auto
  show "digit_char d \<noteq> CHR ''.''" by (rule ne) simp
  show "digit_char d \<noteq> CHR ''-''" by (rule ne) simp
  show "digit_char d \<noteq> CHR ''+''" by (rule ne) simp
  have "digit_char d = CHR ''_'' \<Longrightarrow> (of_char (digit_char d) :: nat) = 95"
    by simp
  then show "digit_char d \<noteq> CHR ''_''" using assms code by auto
qed

lemma str_nat_all_digits: "c \<in> set (str_nat n) \<Longrightarrow> \<exists>d < 10. c = digit_char d"
proof (induction n rule: str_nat.induct)
  case (1 n)
  show ?case
  proof (cases "n < 10")
    case True
    then show ?thesis using "1.prems" by (auto simp: str_nat.simps [of n])
  next
    case False
    then have "c \<in> set (str_nat (n div 10)) \<or> c = digit_char (n mod 10)"
      using "1.prems" by (auto simp: str_nat.simps [of n])
    then show ?thesis
    proof
      assume "c \<in> set (str_nat (n div 10))"
      then show ?thesis using "1.IH" False by simp
    next
      assume "c = digit_char (n mod 10)"
      moreover have "n mod 10 < 10" by simp
      ultimately show ?thesis by blast
    qed
  qed
qed

lemma str_nat_nonempty: "str_nat n \<noteq> []"
  by (subst str_nat.simps) simp

lemma parse_digits_str_nat:
  "parse_digits (str_nat n @ rest) acc
   = parse_digits rest (acc * 10 ^ length (str_nat n) + n)"
proof (induction n arbitrary: acc rest rule: str_nat.induct)
  case (1 n)
  show ?case
  proof (cases "n < 10")
    case True
    then have s: "str_nat n = [digit_char n]" by (simp add: str_nat.simps [of n])
    show ?thesis using True by (simp add: s digit_char_props)
  next
    case False
    let ?q = "n div 10" and ?r = "n mod 10"
    have s: "str_nat n = str_nat ?q @ [digit_char ?r]"
      using False by (simp add: str_nat.simps [of n])
    have "parse_digits (str_nat n @ rest) acc
          = parse_digits (str_nat ?q @ (digit_char ?r # rest)) acc"
      by (simp add: s)
    also have "\<dots> = parse_digits (digit_char ?r # rest) (acc * 10 ^ length (str_nat ?q) + ?q)"
      by (rule "1.IH" [OF False])
    also have "\<dots> = parse_digits rest ((acc * 10 ^ length (str_nat ?q) + ?q) * 10 + ?r)"
      using digit_char_props(1,2) [of ?r] by simp
    also have "(acc * 10 ^ length (str_nat ?q) + ?q) * 10 + ?r
               = acc * 10 ^ length (str_nat n) + n"
      by (simp add: s algebra_simps)
    finally show ?thesis .
  qed
qed

lemma parse_unsigned_str_nat: "parse_unsigned (str_nat n) = Some n"
proof -
  obtain c cs where cs: "str_nat n = c # cs"
    using str_nat_nonempty [of n] by (cases "str_nat n") auto
  then have "c \<in> set (str_nat n)" by simp
  then have "is_digit c" using str_nat_all_digits digit_char_props(1) by blast
  moreover have "parse_digits (str_nat n) 0 = Some n"
    using parse_digits_str_nat [of n "[]" 0] by simp
  ultimately show ?thesis by (simp add: parse_unsigned_def cs)
qed

lemma py_strip_id:
  assumes "s \<noteq> []" and "\<not> is_space (hd s)" and "\<not> is_space (last s)"
  shows "py_strip s = s"
proof -
  have "dropWhile is_space s = s"
    using assms(1,2) by (cases s) auto
  moreover have "dropWhile is_space (rev s) = rev s"
    using assms(1,3) by (cases "rev s") (auto simp: last_rev [symmetric] hd_rev)
  ultimately show ?thesis by (simp add: py_strip_def)
qed

lemma str_nat_no_space: "c \<in> set (str_nat n) \<Longrightarrow> \<not> is_space c"
  using str_nat_all_digits digit_char_props(3) by blast

lemma py_int_py_str_int: "py_int (py_str_int i) = Inr i"
proof (cases "i < 0")
  case True
  let ?ds = "str_nat (nat (- i))"
  have "last (CHR ''-'' # ?ds) \<in> set ?ds"
    using str_nat_nonempty [of "nat (- i)"] by simp
  then have "\<not> is_space (last (CHR ''-'' # ?ds))" by (rule str_nat_no_space)
  moreover have "\<not> is_space CHR ''-''" by (simp add: is_space_def)
  ultimately have "py_strip (CHR ''-'' # ?ds) = CHR ''-'' # ?ds"
    by (intro py_strip_id) simp_all
  then show ?thesis
    using True by (simp add: py_int_def py_str_int_def parse_unsigned_str_nat)
next
  case False
  let ?ds = "str_nat (nat i)"
  obtain c cs where cs: "?ds = c # cs"
    using str_nat_nonempty [of "nat i"] by (cases ?ds) auto
  have "c \<in> set ?ds" by (simp add: cs)
  then obtain d where d: "d < 10" "c = digit_char d"
    using str_nat_all_digits by blast
  have "hd ?ds \<in> set ?ds" and "last ?ds \<in> set ?ds"
    using str_nat_nonempty [of "nat i"] by simp_all
  then have "\<not> is_space (hd ?ds)" and "\<not> is_space (last ?ds)"
    by (blast dest: str_nat_no_space)+
  then have "py_strip ?ds = ?ds"
    using str_nat_nonempty [of "nat i"] by (intro py_strip_id)
  moreover have "parse_unsigned (c # cs) = Some (nat i)"
    using parse_unsigned_str_nat [of "nat i"] by (simp add: cs)
  ultimately show ?thesis
    using False d by (simp add: py_int_def py_str_int_def cs digit_char_props)
qed

lemma str_nat_no_dot: "CHR ''.'' \<notin> set (str_nat n)"
proof
  assume "CHR ''.'' \<in> set (str_nat n)"
  then obtain d where "d < 10" and "CHR ''.'' = digit_char d"
    using str_nat_all_digits by blast
  then show False using digit_char_props(4) [of d] by simp
qed

lemma py_str_int_no_dot: "CHR ''.'' \<notin> set (py_str_int i)"
  by (simp add: py_str_int_def str_nat_no_dot)

subsection \<open>Splitting at the separator\<close>

lemma py_split_nonempty: "py_split sep s \<noteq> []"
  by (induction s) (auto split: list.splits)

lemma py_split_no_sep: "sep \<notin> set s \<Longrightarrow> py_split sep s = [s]"
  by (induction s) auto

lemma py_split_append: "sep \<notin> set a \<Longrightarrow> py_split sep (a @ sep # b) = a # py_split sep b"
  by (induction a) auto

lemma py_split_snoc: "sep \<notin> set g \<Longrightarrow> py_split sep (p @ sep # g) = py_split sep p @ [g]"
proof (induction p)
  case Nil
  then show ?case by (simp add: py_split_no_sep)
next
  case (Cons c p)
  then show ?case
    using py_split_nonempty [of sep p] by (auto split: list.splits)
qed

lemma py_rsplit1_append:
  assumes "sep \<notin> set g"
  shows "py_rsplit1 sep (p @ sep # g) = [p, g]"
proof -
  have tw: "takeWhile (\<lambda>c. c \<noteq> sep) (rev g @ sep # rev p) = rev g"
    using assms by (simp add: takeWhile_append)
  have dw: "dropWhile (\<lambda>c. c \<noteq> sep) (rev g @ sep # rev p) = sep # rev p"
    using assms by (simp add: dropWhile_append)
  show ?thesis
    by (simp add: py_rsplit1_def tw dw)
qed

lemma py_rsplit1_cases:
  obtains (none) "sep \<notin> set s" and "py_rsplit1 sep s = [s]"
  | (split) p g where "s = p @ sep # g" and "sep \<notin> set g" and "py_rsplit1 sep s = [p, g]"
proof (cases "sep \<in> set s")
  case False
  then show ?thesis using none by (simp add: py_rsplit1_def)
next
  case True
  then have "sep \<in> set (rev s)" by simp
  then obtain ys zs where r: "rev s = ys @ sep # zs" and "sep \<notin> set ys"
    by (meson split_list_first)
  then have "rev (rev s) = rev (ys @ sep # zs)" and "sep \<notin> set (rev ys)"
    by simp_all
  then have "s = rev zs @ sep # rev ys" and "sep \<notin> set (rev ys)"
    by simp_all
  then show ?thesis using split py_rsplit1_append by metis
qed

subsection \<open>Issued tokens\<close>

text \<open>
  A token issued for a user id without the separator verifies to that user id while it
  is within its lifetime.
\<close>

lemma validate_state_generate_state:
  assumes "CHR ''.'' \<notin> set uid"
    and "now' - now \<le> ttl_seconds mgr"
  shows "validate_state h mgr now' (generate_state h mgr random_bytes now uid) = Some uid"
proof -
  let ?rnd = "token_urlsafe random_bytes"
  let ?ts = "py_str_int now"
  let ?payload = "?rnd @ CHR ''.'' # uid @ CHR ''.'' # ?ts"
  let ?sig = "sign h mgr ?payload"
  have gen: "generate_state h mgr random_bytes now uid = ?payload @ CHR ''.'' # ?sig"
    by (simp add: generate_state_def Let_def)
  have rs: "py_rsplit1 CHR ''.'' (?payload @ CHR ''.'' # ?sig) = [?payload, ?sig]"
    by (rule py_rsplit1_append) (rule sign_no_dot)
  have sp: "py_split CHR ''.'' ?payload = [?rnd, uid, ?ts]"
    using assms(1)
    by (simp add: py_split_append py_split_no_sep token_urlsafe_no_dot py_str_int_no_dot)
  have "validate_state_body h mgr now' (?payload @ CHR ''.'' # ?sig) = Inr (Some uid)"
    unfolding validate_state_body_def rs
    using assms(2) by (simp add: compare_digest_sign sp py_int_py_str_int)
  then show ?thesis
    by (simp add: validate_state_def gen)
qed

subsection \<open>Rejected tokens\<close>

lemma length_py_split: "length (py_split sep s) = Suc (length (filter (\<lambda>c. c = sep) s))"
proof (induction s)
  case Nil
  show ?case by simp
next
  case (Cons c s)
  then show ?case
    using py_split_nonempty [of sep s] by (auto split: list.splits)
qed

lemma py_split_Cons_cases:
  assumes "py_split sep s = w # ws"
  shows "sep \<notin> set w \<and>
         (if ws = [] then s = w else \<exists>rest. s = w @ sep # rest \<and> py_split sep rest = ws)"
  using assms
proof (induction s arbitrary: w ws)
  case Nil
  then show ?case by simp
next
  case (Cons c s)
  show ?case
  proof (cases "c = sep")
    case True
    then show ?thesis
      using Cons.prems py_split_nonempty [of sep s] by auto
  next
    case False
    obtain v vs where v: "py_split sep s = v # vs"
      using py_split_nonempty [of sep s] by (cases "py_split sep s") auto
    have w: "w = c # v" and ws: "ws = vs"
      using Cons.prems False by (simp_all add: v)
    from Cons.IH [OF v] show ?thesis
      using False by (auto simp: w ws)
  qed
qed

lemma py_split_three:
  assumes "py_split sep s = [a, b, c]"
  shows "s = a @ sep # b @ sep # c \<and> sep \<notin> set a \<and> sep \<notin> set b \<and> sep \<notin> set c"
proof -
  from py_split_Cons_cases [OF assms] obtain r1
    where a: "sep \<notin> set a" and s: "s = a @ sep # r1" and r1: "py_split sep r1 = [b, c]"
    by auto
  from py_split_Cons_cases [OF r1] obtain r2
    where b: "sep \<notin> set b" and s1: "r1 = b @ sep # r2" and r2: "py_split sep r2 = [c]"
    by auto
  from py_split_Cons_cases [OF r2] have "sep \<notin> set c" and "r2 = c"
    by auto
  then show ?thesis using a b s s1 by simp
qed

lemma validate_state_body_shape:
  assumes "length (py_split CHR ''.'' state) \<noteq> 4"
  shows "validate_state_body h mgr now state = Inr None
         \<or> (\<exists>e. validate_state_body h mgr now state = Inl e)"
proof (cases rule: py_rsplit1_cases [of "CHR ''.''" state])
  case none
  then show ?thesis by (simp add: validate_state_body_def)
next
  case (split p g)
  have "length (py_split CHR ''.'' p) \<noteq> 3"
    using assms split(1,2) by (simp add: py_split_snoc)
  then have "(case py_split CHR ''.'' p of
                [_, uid, timestamp_str] \<Rightarrow> f uid timestamp_str
              | _ \<Rightarrow> Inr None) = Inr None" for f :: "string \<Rightarrow> string \<Rightarrow> py_exception + string option"
    by (auto split: list.splits)
  then show ?thesis
    unfolding validate_state_body_def split(3)
    by (auto split: sum.splits)
qed

lemma validate_state_shape:
  "length (py_split CHR ''.'' state) \<noteq> 4 \<Longrightarrow> validate_state h mgr now state = None"
  using validate_state_body_shape [of state h mgr now]
  by (auto simp: validate_state_def)

lemma validate_state_bad_signature:
  assumes "py_rsplit1 CHR ''.'' state = [payload, signature]"
    and "signature \<noteq> sign h mgr payload"
  shows "validate_state h mgr now state = None"
  using assms
  by (simp add: validate_state_def validate_state_body_def compare_digest_def)

lemma validate_state_Some:
  assumes "validate_state h mgr now state = Some u"
  shows "\<exists>r t g ts. state = r @ ''.'' @ u @ ''.'' @ t @ ''.'' @ g
           \<and> CHR ''.'' \<notin> set r \<and> CHR ''.'' \<notin> set u \<and> CHR ''.'' \<notin> set t \<and> CHR ''.'' \<notin> set g
           \<and> g = sign h mgr (r @ ''.'' @ u @ ''.'' @ t)
           \<and> py_int t = Inr ts \<and> now - ts \<le> ttl_seconds mgr"
proof (cases rule: py_rsplit1_cases [of "CHR ''.''" state])
  case none
  then show ?thesis using assms by (simp add: validate_state_def validate_state_body_def)
next
  case (split p g)
  have body: "validate_state_body h mgr now state = Inr (Some u)"
    using assms by (auto simp: validate_state_def split: sum.splits)
  have g: "g = sign h mgr p"
    using body unfolding validate_state_body_def split(3)
    by (auto simp: compare_digest_def split: if_splits)
  then have cd: "compare_digest g (sign h mgr p) = Inr True"
    by (simp add: compare_digest_sign)
  from body obtain r t where sp: "py_split CHR ''.'' p = [r, u, t]"
    by (auto simp: validate_state_body_def split(3) cd split: list.splits sum.splits if_splits)
  from body have "(case py_int t of
                     Inl e \<Rightarrow> Inl e
                   | Inr timestamp \<Rightarrow>
                       if now - timestamp > ttl_seconds mgr then Inr None else Inr (Some u))
                  = Inr (Some u)"
    by (simp add: validate_state_body_def split(3) cd sp)
  then obtain ts where ts: "py_int t = Inr ts" and fresh: "now - ts \<le> ttl_seconds mgr"
    by (auto split: sum.splits if_splits)
  from py_split_three [OF sp] have p: "p = r @ ''.'' @ u @ ''.'' @ t"
    and nd: "CHR ''.'' \<notin> set r" "CHR ''.'' \<notin> set u" "CHR ''.'' \<notin> set t"
    by simp_all
  show ?thesis
    using split(1,2) g ts fresh nd unfolding p by auto
qed

lemma validate_state_dotted_user:
  assumes "CHR ''.'' \<in> set uid"
  shows "validate_state h mgr now' (generate_state h mgr random_bytes now uid) = None"
proof (rule validate_state_shape)
  have "filter (\<lambda>c. c = CHR ''.'') uid \<noteq> []"
    using assms by (simp add: filter_empty_conv)
  then have "0 < length (filter (\<lambda>c. c = CHR ''.'') uid)" by simp
  then show "length (py_split CHR ''.'' (generate_state h mgr random_bytes now uid)) \<noteq> 4"
    by (simp add: generate_state_def Let_def length_py_split)
qed

lemma validate_state_expired:
  assumes "ttl_seconds mgr < now' - now"
  shows "validate_state h mgr now' (generate_state h mgr random_bytes now uid) = None"
proof (cases "CHR ''.'' \<in> set uid")
  case True
  then show ?thesis by (rule validate_state_dotted_user)
next
  case False
  let ?rnd = "token_urlsafe random_bytes"
  let ?ts = "py_str_int now"
  let ?payload = "?rnd @ CHR ''.'' # uid @ CHR ''.'' # ?ts"
  let ?sig = "sign h mgr ?payload"
  have gen: "generate_state h mgr random_bytes now uid = ?payload @ CHR ''.'' # ?sig"
    by (simp add: generate_state_def Let_def)
  have rs: "py_rsplit1 CHR ''.'' (?payload @ CHR ''.'' # ?sig) = [?payload, ?sig]"
    by (rule py_rsplit1_append) (rule sign_no_dot)
  have sp: "py_split CHR ''.'' ?payload = [?rnd, uid, ?ts]"
    using False
    by (simp add: py_split_append py_split_no_sep token_urlsafe_no_dot py_str_int_no_dot)
  have "validate_state_body h mgr now' (?payload @ CHR ''.'' # ?sig) = Inr None"
    unfolding validate_state_body_def rs
    using assms by (simp add: compare_digest_sign sp py_int_py_str_int)
  then show ?thesis
    by (simp add: validate_state_def gen)
qed

lemma ttl_test_state_manager [simp]: "ttl_seconds test_state_manager = 600"
  by (simp add: test_state_manager_def OAuthStateManager_init_def)

subsection \<open>Claims C3, C6 and C9\<close>

text \<open>
  C3: verifying a token right after issuing it returns the user id, for every user id.
  \<^verbatim>\<open>generate_state\<close> writes the user id into the payload
  \<open>random.user_id.timestamp\<close> without escaping the separator, and
  \<^verbatim>\<open>validate_state\<close> requires the payload to split at \<open>.\<close> into exactly three
  parts.  For the user id \<^verbatim>\<open>a.b\<close> and the state manager of the tests, the issued
  token splits at its last separator into payload and signature, the signature is the
  one \<^verbatim>\<open>_sign\<close> computes for the payload, and the timestamp is the integer of the
  second of verification; but the payload has four parts, and verification returns
  \<^verbatim>\<open>None\<close> instead of the \<open>user_id if valid\<close> of the docstring.  The token issued
  by the same call for \<^verbatim>\<open>test-user-123\<close> verifies to its user id.
\<close>

theorem validate_state_dotted_user_rejected:
  "(let state = generate_state sample_hmac test_state_manager test_random_bytes 1700000000 ''a.b'';
        payload = hd (py_rsplit1 CHR ''.'' state);
        signature = last (py_rsplit1 CHR ''.'' state)
    in length (py_rsplit1 CHR ''.'' state) = 2
       \<and> compare_digest signature (sign sample_hmac test_state_manager payload) = Inr True
       \<and> py_split CHR ''.'' payload =
           [token_urlsafe test_random_bytes, ''a'', ''b'', py_str_int 1700000000]
       \<and> py_int (py_str_int 1700000000) = Inr 1700000000
       \<and> validate_state sample_hmac test_state_manager 1700000000 state = None)
   \<and> validate_state sample_hmac test_state_manager 1700000000
         (generate_state sample_hmac test_state_manager test_random_bytes 1700000000
            ''test-user-123'')
       = Some ''test-user-123''"
proof -
  let ?h = sample_hmac and ?m = test_state_manager
  let ?rnd = "token_urlsafe test_random_bytes"
  let ?ts = "py_str_int 1700000000"
  let ?payload = "?rnd @ CHR ''.'' # ''a.b'' @ CHR ''.'' # ?ts"
  let ?sig = "sign ?h ?m ?payload"
  let ?state = "generate_state ?h ?m test_random_bytes 1700000000 ''a.b''"
  have gen: "?state = ?payload @ CHR ''.'' # ?sig"
    by (simp add: generate_state_def Let_def)
  have rs: "py_rsplit1 CHR ''.'' ?state = [?payload, ?sig]"
    unfolding gen by (rule py_rsplit1_append) (rule sign_no_dot)
  have "?payload = ?rnd @ CHR ''.'' # (''a'' @ CHR ''.'' # (''b'' @ CHR ''.'' # ?ts))"
    by simp
  then have sp: "py_split CHR ''.'' ?payload = [?rnd, ''a'', ''b'', ?ts]"
    by (simp only: py_split_append [OF token_urlsafe_no_dot])
       (simp add: py_split_no_sep py_str_int_no_dot)
  have dotted: "CHR ''.'' \<in> set ''a.b''" by simp
  have none: "validate_state ?h ?m 1700000000 ?state = None"
    using dotted by (rule validate_state_dotted_user)
  have plain: "CHR ''.'' \<notin> set ''test-user-123''" by simp
  have fresh: "(1700000000::int) - 1700000000 \<le> ttl_seconds ?m" by simp
  have some: "validate_state ?h ?m 1700000000
      (generate_state ?h ?m test_random_bytes 1700000000 ''test-user-123'')
      = Some ''test-user-123''"
    using plain fresh by (rule validate_state_generate_state)
  show ?thesis
    unfolding Let_def rs
    using sp none some by (simp add: compare_digest_sign py_int_py_str_int rs)
qed

text \<open>
  C6: verification rejects every token whose signature part (the text after the last
  \<open>.\<close>) differs from the keyed hash of the payload before it; in particular a payload
  followed by any other separator-free signature.  It rejects every issued token, its
  signature valid, when the clock at verification is more than \<open>ttl_seconds\<close> past
  the issuance timestamp.
\<close>

theorem validate_state_rejects:
  "(py_rsplit1 CHR ''.'' state = [payload, signature] \<and> signature \<noteq> sign hmac_sha256 mgr payload
      \<longrightarrow> validate_state hmac_sha256 mgr now state = None)
   \<and> (CHR ''.'' \<notin> set signature' \<and> signature' \<noteq> sign hmac_sha256 mgr payload'
      \<longrightarrow> validate_state hmac_sha256 mgr now (payload' @ ''.'' @ signature') = None)
   \<and> (ttl_seconds mgr < now' - issued
      \<longrightarrow> validate_state hmac_sha256 mgr now'
            (generate_state hmac_sha256 mgr random_bytes issued uid) = None)"
proof (intro conjI impI)
  assume "py_rsplit1 CHR ''.'' state = [payload, signature] \<and> signature \<noteq> sign hmac_sha256 mgr payload"
  then show "validate_state hmac_sha256 mgr now state = None"
    using validate_state_bad_signature by blast
next
  assume a: "CHR ''.'' \<notin> set signature' \<and> signature' \<noteq> sign hmac_sha256 mgr payload'"
  then have "py_rsplit1 CHR ''.'' (payload' @ CHR ''.'' # signature') = [payload', signature']"
    by (simp add: py_rsplit1_append)
  then show "validate_state hmac_sha256 mgr now (payload' @ ''.'' @ signature') = None"
    using a validate_state_bad_signature [of "payload' @ CHR ''.'' # signature'"] by simp
next
  assume "ttl_seconds mgr < now' - issued"
  then show "validate_state hmac_sha256 mgr now'
      (generate_state hmac_sha256 mgr random_bytes issued uid) = None"
    by (rule validate_state_expired)
qed

text \<open>
  The tampered token of the tests (a signature of \<open>x\<close>s, which are no hexadecimal
  digits) and a token verified 601 seconds after it was issued with a TTL of 600.
\<close>

theorem validate_state_rejects_witness:
  "py_rsplit1 CHR ''.'' ''rnd.user-123.1700000000.xxxxx'' = [''rnd.user-123.1700000000'', ''xxxxx'']
   \<and> ''xxxxx'' \<noteq> sign sample_hmac test_state_manager ''rnd.user-123.1700000000''
   \<and> validate_state sample_hmac test_state_manager 1700000000 ''rnd.user-123.1700000000.xxxxx'' = None
   \<and> validate_state sample_hmac test_state_manager 1700000000
        (''rnd.user-123.1700000000'' @ ''.'' @ ''xxxxx'') = None
   \<and> ttl_seconds test_state_manager < 1700000601 - 1700000000
   \<and> validate_state sample_hmac test_state_manager 1700000601
        (generate_state sample_hmac test_state_manager test_random_bytes 1700000000 ''user-123'') = None"
proof -
  let ?p = "''rnd.user-123.1700000000''"
  have rs: "py_rsplit1 CHR ''.'' ''rnd.user-123.1700000000.xxxxx'' = [?p, ''xxxxx'']"
    by (simp add: py_rsplit1_def)
  have "CHR ''x'' \<notin> set (sign sample_hmac test_state_manager ?p)"
    using sign_set [of sample_hmac test_state_manager ?p] by (auto simp: hex_digits_def)
  moreover have "CHR ''x'' \<in> set ''xxxxx''" by simp
  ultimately have ne: "''xxxxx'' \<noteq> sign sample_hmac test_state_manager ?p"
    by metis
  have nd: "CHR ''.'' \<notin> set ''xxxxx''" by simp
  have late: "ttl_seconds test_state_manager < 1700000601 - 1700000000" by simp
  note inst = validate_state_rejects [of "''rnd.user-123.1700000000.xxxxx''" ?p "''xxxxx''"
      sample_hmac test_state_manager 1700000000 "''xxxxx''" ?p 1700000601 1700000000
      test_random_bytes "''user-123''"]
  from inst rs ne nd late show ?thesis by blast
qed

text \<open>
  C9: \<^verbatim>\<open>validate_state\<close> never raises and returns a user id or \<^verbatim>\<open>None\<close>.
  Every state that does not consist of exactly four \<open>.\<close>-separated parts (a payload
  of three parts and the signature) is rejected; every exception the body raises
  (\<^verbatim>\<open>TypeError\<close> from the comparison of a non-ASCII signature,
  \<^verbatim>\<open>ValueError\<close> from a timestamp that is no integer) is turned into \<^verbatim>\<open>None\<close>;
  and a user id is returned only for a state of the shape
  \<open>random.user_id.timestamp.signature\<close> with a matching signature and a timestamp
  that parses and has not expired.
\<close>

theorem validate_state_total:
  "(length (py_split CHR ''.'' state) \<noteq> 4 \<longrightarrow> validate_state hmac_sha256 mgr now state = None)
   \<and> (validate_state_body hmac_sha256 mgr now state = Inl e
        \<longrightarrow> validate_state hmac_sha256 mgr now state = None)
   \<and> (validate_state hmac_sha256 mgr now state = Some u \<longrightarrow>
        (\<exists>r t g ts. state = r @ ''.'' @ u @ ''.'' @ t @ ''.'' @ g
           \<and> CHR ''.'' \<notin> set r \<and> CHR ''.'' \<notin> set u \<and> CHR ''.'' \<notin> set t \<and> CHR ''.'' \<notin> set g
           \<and> g = sign hmac_sha256 mgr (r @ ''.'' @ u @ ''.'' @ t)
           \<and> py_int t = Inr ts \<and> now - ts \<le> ttl_seconds mgr))"
proof (intro conjI impI)
  assume "length (py_split CHR ''.'' state) \<noteq> 4"
  then show "validate_state hmac_sha256 mgr now state = None"
    by (rule validate_state_shape)
next
  assume "validate_state_body hmac_sha256 mgr now state = Inl e"
  then show "validate_state hmac_sha256 mgr now state = None"
    by (simp add: validate_state_def)
next
  assume "validate_state hmac_sha256 mgr now state = Some u"
  then show "\<exists>r t g ts. state = r @ ''.'' @ u @ ''.'' @ t @ ''.'' @ g
           \<and> CHR ''.'' \<notin> set r \<and> CHR ''.'' \<notin> set u \<and> CHR ''.'' \<notin> set t \<and> CHR ''.'' \<notin> set g
           \<and> g = sign hmac_sha256 mgr (r @ ''.'' @ u @ ''.'' @ t)
           \<and> py_int t = Inr ts \<and> now - ts \<le> ttl_seconds mgr"
    by (rule validate_state_Some)
qed

text \<open>
  The state \<^verbatim>\<open>"invalid-state"\<close> of the tests has one part and is rejected; a correctly
  signed payload whose timestamp is the word \<open>soon\<close> makes \<^verbatim>\<open>int()\<close> raise
  \<^verbatim>\<open>ValueError\<close>, which becomes \<^verbatim>\<open>None\<close>; an issued token has the shape the
  verifier accepts.
\<close>

theorem validate_state_total_witness:
  "length (py_split CHR ''.'' ''invalid-state'') = 1
   \<and> validate_state sample_hmac test_state_manager 1700000000 ''invalid-state'' = None
   \<and> validate_state_body sample_hmac test_state_manager 1700000000
        (''rnd.user-123.soon'' @ ''.'' @ sign sample_hmac test_state_manager ''rnd.user-123.soon'')
      = Inl ValueError
   \<and> validate_state sample_hmac test_state_manager 1700000000
        (''rnd.user-123.soon'' @ ''.'' @ sign sample_hmac test_state_manager ''rnd.user-123.soon'')
      = None
   \<and> (\<exists>r t g ts.
        generate_state sample_hmac test_state_manager test_random_bytes 1700000000 ''test-user-123''
          = r @ ''.'' @ ''test-user-123'' @ ''.'' @ t @ ''.'' @ g
        \<and> g = sign sample_hmac test_state_manager (r @ ''.'' @ ''test-user-123'' @ ''.'' @ t)
        \<and> py_int t = Inr ts \<and> 1700000000 - ts \<le> ttl_seconds test_state_manager)"
proof -
  let ?bad = "''rnd.user-123.soon'' @ ''.'' @ sign sample_hmac test_state_manager ''rnd.user-123.soon''"
  let ?good = "generate_state sample_hmac test_state_manager test_random_bytes 1700000000 ''test-user-123''"
  have len: "length (py_split CHR ''.'' ''invalid-state'') = 1" by simp
  have rs: "py_rsplit1 CHR ''.'' ?bad
            = [''rnd.user-123.soon'', sign sample_hmac test_state_manager ''rnd.user-123.soon'']"
    using py_rsplit1_append [OF sign_no_dot, of "''rnd.user-123.soon''"] by simp
  have raises: "validate_state_body sample_hmac test_state_manager 1700000000 ?bad = Inl ValueError"
    unfolding validate_state_body_def rs
    by (simp add: compare_digest_sign py_int_def py_strip_def is_space_def parse_unsigned_def
        is_digit_def)
  have ok: "validate_state sample_hmac test_state_manager 1700000000 ?good = Some ''test-user-123''"
    by (rule validate_state_generate_state) simp_all
  from validate_state_total [of "''invalid-state''" sample_hmac test_state_manager 1700000000]
  have w1: "validate_state sample_hmac test_state_manager 1700000000 ''invalid-state'' = None"
    using len by simp
  from validate_state_total [of ?bad sample_hmac test_state_manager 1700000000 ValueError]
  have w2: "validate_state sample_hmac test_state_manager 1700000000 ?bad = None"
    using raises by blast
  from validate_state_total [of ?good sample_hmac test_state_manager 1700000000 _ "''test-user-123''"]
  have w3: "\<exists>r t g ts. ?good = r @ ''.'' @ ''test-user-123'' @ ''.'' @ t @ ''.'' @ g
        \<and> g = sign sample_hmac test_state_manager (r @ ''.'' @ ''test-user-123'' @ ''.'' @ t)
        \<and> py_int t = Inr ts \<and> 1700000000 - ts \<le> ttl_seconds test_state_manager"
    using ok by blast
  show ?thesis using len w1 raises w2 w3 by blast
qed

section \<open>Credential vault: round trip and failures\<close>

subsection \<open>Base64: decoding what was encoded\<close>








lemma nibbles:
  fixes n :: nat
  assumes "n < 256"
  shows "n div 4 < 64" and "n div 16 < 16" and "n div 64 < 4" 
  using assms by simp_all













subsection \<open>UTF-8 and the example cipher\<close>








subsection \<open>Base64: the unused bits of the last character\<close>



lemma b64encode_append:
  "length bs mod 3 = 0 \<Longrightarrow> b64encode (bs @ tail) = b64encode bs @ b64encode tail"
  by (induction bs rule: b64encode.induct) simp_all




subsection \<open>Claims C4 and C7\<close>






section \<open>Token lifecycle: the store after each operation\<close>

subsection \<open>Lookups after writes\<close>

lemma filter_map_same:
  assumes "\<And>x. P (g x) = P x"
  shows "filter P (map g xs) = map g (filter P xs)"
  by (induction xs) (simp_all add: assms)

lemma tokens_log_effect [simp]: "tokens (log_effect w e) = tokens w"
  by (simp add: log_effect_def)

lemma effects_log_effect [simp]: "effects (log_effect w e) = effects w @ [e]"
  by (simp add: log_effect_def)

lemma get_by_user_id_log_effect [simp]: "get_by_user_id (log_effect w e) uid = get_by_user_id w uid"
  by (simp add: get_by_user_id_def)

lemma get_by_google_account_log_effect [simp]:
  "get_by_google_account (log_effect w e) account = get_by_google_account w account"
  by (simp add: get_by_google_account_def)

lemma tokens_update_rows [simp]:
  "tokens (update_rows w uid f) = map (\<lambda>r. if user_id r = uid then f r else r) (tokens w)"
  by (simp add: update_rows_def)

lemma effects_update_rows [simp]: "effects (update_rows w uid f) = effects w"
  by (simp add: update_rows_def)

lemma get_by_user_id_SomeD:
  assumes "get_by_user_id w uid = Some r"
  shows "r \<in> set (tokens w)" and "user_id r = uid" and "is_active r"
proof -
  let ?rows = "filter (\<lambda>r. user_id r = uid \<and> is_active r) (tokens w)"
  have "?rows = [r]"
    using assms unfolding get_by_user_id_def by (simp split: list.splits)
  then have "r \<in> set ?rows" by simp
  then show "r \<in> set (tokens w)" and "user_id r = uid" and "is_active r"
    by simp_all
qed

lemma get_by_user_id_update_rows:
  assumes "\<And>r. user_id (f r) = user_id r" and "\<And>r. is_active (f r) = is_active r"
  shows "get_by_user_id (update_rows w uid f) uid = map_option f (get_by_user_id w uid)"
proof -
  let ?g = "\<lambda>r. if user_id r = uid then f r else r"
  let ?P = "\<lambda>r. user_id r = uid \<and> is_active r"
  have "?P (?g r) = ?P r" for r
    by (simp add: assms)
  then have "filter ?P (map ?g (tokens w)) = map ?g (filter ?P (tokens w))"
    by (rule filter_map_same)
  moreover have "map ?g (filter ?P (tokens w)) = map f (filter ?P (tokens w))"
    by (rule map_cong) simp_all
  ultimately have rows: "filter ?P (tokens (update_rows w uid f)) = map f (filter ?P (tokens w))"
    by (simp only: tokens_update_rows)
  show ?thesis
    unfolding get_by_user_id_def rows
    by (cases "filter ?P (tokens w)") (simp_all split: list.splits)
qed

lemma get_by_user_id_set_error:
  "get_by_user_id (set_error w now uid err) uid
   = map_option (\<lambda>r. r\<lparr>last_error := Some err, updated_at := Some now\<rparr>) (get_by_user_id w uid)"
  unfolding set_error_def get_by_user_id_log_effect
  by (rule get_by_user_id_update_rows) simp_all

lemma get_by_user_id_update_expiry:
  "get_by_user_id (update_expiry w now uid t) uid
   = map_option (\<lambda>r. r\<lparr>access_token_expires_at := Some t, updated_at := Some now\<rparr>)
       (get_by_user_id w uid)"
  unfolding update_expiry_def get_by_user_id_log_effect
  by (rule get_by_user_id_update_rows) simp_all

lemma filter_map_none:
  assumes "\<And>x. \<not> P (g x)"
  shows "filter P (map g xs) = []"
  by (induction xs) (simp_all add: assms)

lemma get_by_user_id_mark_revoked: "get_by_user_id (mark_revoked w now uid) uid = None"
proof -
  let ?f = "\<lambda>r. r\<lparr>is_active := False, revoked_at := Some now, updated_at := Some now\<rparr>"
  let ?g = "\<lambda>r. if user_id r = uid then ?f r else r"
  have "\<not> (user_id (?g r) = uid \<and> is_active (?g r))" for r
    by simp
  then have "filter (\<lambda>r. user_id r = uid \<and> is_active r) (map ?g (tokens w)) = []"
    by (rule filter_map_none)
  then show ?thesis
    unfolding get_by_user_id_def mark_revoked_def get_by_user_id_log_effect tokens_log_effect
      tokens_update_rows
    by simp
qed

lemma test_world_alice: "get_by_user_id test_world ''alice'' = Some alice_row"
  by (simp add: get_by_user_id_def test_world_def alice_row_def)

lemma alice_fields:
  "encrypted_refresh_token alice_row = ''ycTApqeoqaqrrK2ur7CxsrO0tQ==''"
  "encryption_nonce alice_row = ''AAECAwQFBgcICQoL''"
  "user_id alice_row = ''alice''"
  "google_account_id alice_row = ''g-1''"
  "is_active alice_row"
  by (simp_all add: alice_row_def)

lemma alice_secret:
  "decrypt sample_cipher test_encryptor (encrypted_refresh_token alice_row)
     (encryption_nonce alice_row) = Inr ''tok''"
  unfolding alice_fields by code_simp

lemma set_error_rows:
  assumes "r \<in> set (tokens (set_error w now uid err))" and "user_id r = uid"
  shows "last_error r = Some err"
proof -
  let ?f = "\<lambda>r. r\<lparr>last_error := Some err, updated_at := Some now\<rparr>"
  have "r \<in> (\<lambda>r. if user_id r = uid then ?f r else r) ` set (tokens w)"
    using assms(1) by (simp add: set_error_def)
  then obtain r0 where r0: "r = (if user_id r0 = uid then ?f r0 else r0)"
    by (rule imageE)
  show ?thesis
  proof (cases "user_id r0 = uid")
    case True
    then have "r = ?f r0" using r0 by simp
    then show ?thesis by simp
  next
    case False
    then have "r = r0" using r0 by simp
    then show ?thesis using False assms(2) by simp
  qed
qed

subsection \<open>Claim C5\<close>

text \<open>
  C5: for every user with an active credential record whose secret decrypts, a request
  whose refresh call fails, by a refusal of the provider or by a transport failure such
  as a timeout, raises \<^verbatim>\<open>TokenExpiredError\<close> and never returns a client; the store
  then holds the failure text in \<^verbatim>\<open>last_error\<close> of the user's record, and of every
  other row of that user.  The request's effects are the decryption, the refresh call
  and the write of the error.
\<close>

theorem refresh_failure_recorded:
  assumes "get_by_user_id w uid = Some token_row"
    and "decrypt c encryptor (encrypted_refresh_token token_row) (encryption_nonce token_row)
         = Inr refresh_tok"
  shows "fst (get_calendar_client c encryptor (Inl failure) now uid w)
           = Inl (TokenExpiredError uid ''Failed to refresh access token'')
    \<and> get_by_user_id (snd (get_calendar_client c encryptor (Inl failure) now uid w)) uid
           = Some (token_row\<lparr>last_error := Some (failure_text failure), updated_at := Some now\<rparr>)
    \<and> (\<forall>r \<in> set (tokens (snd (get_calendar_client c encryptor (Inl failure) now uid w))).
          user_id r = uid \<longrightarrow> last_error r = Some (failure_text failure))
    \<and> effects (snd (get_calendar_client c encryptor (Inl failure) now uid w))
           = effects w @ [VaultDecrypt, ProviderRefresh uid, StoreSetError uid]"
proof -
  let ?w2 = "log_effect (log_effect w VaultDecrypt) (ProviderRefresh uid)"
  let ?w3 = "set_error ?w2 now uid (failure_text failure)"
  have run: "get_calendar_client c encryptor (Inl failure) now uid w
             = (Inl (TokenExpiredError uid ''Failed to refresh access token''), ?w3)"
    unfolding get_calendar_client_def assms(1) option.case Let_def assms(2) sum.case
    by (rule refl)
  have rec: "get_by_user_id ?w3 uid
             = Some (token_row\<lparr>last_error := Some (failure_text failure), updated_at := Some now\<rparr>)"
    unfolding get_by_user_id_set_error get_by_user_id_log_effect assms(1) by simp
  have rows: "\<forall>r \<in> set (tokens ?w3). user_id r = uid \<longrightarrow> last_error r = Some (failure_text failure)"
    by (intro ballI impI) (rule set_error_rows)
  have eff: "effects ?w3 = effects w @ [VaultDecrypt, ProviderRefresh uid, StoreSetError uid]"
    by (simp add: set_error_def)
  show ?thesis
    unfolding run fst_conv snd_conv
    by (intro conjI) (rule refl, rule rec, rule rows, rule eff)
qed

text \<open>The refresh call of \<open>alice\<close> times out.\<close>

theorem refresh_failure_recorded_witness:
  "fst (get_calendar_client sample_cipher test_encryptor (Inl (TransportError ''timed out''))
          1700000000 ''alice'' test_world)
     = Inl (TokenExpiredError ''alice'' ''Failed to refresh access token'')
   \<and> get_by_user_id
       (snd (get_calendar_client sample_cipher test_encryptor (Inl (TransportError ''timed out''))
               1700000000 ''alice'' test_world)) ''alice''
     = Some (alice_row\<lparr>last_error := Some ''timed out'', updated_at := Some 1700000000\<rparr>)"
proof -
  note inst = refresh_failure_recorded [OF test_world_alice alice_secret,
      of "TransportError ''timed out''" 1700000000]
  have a: "fst (get_calendar_client sample_cipher test_encryptor (Inl (TransportError ''timed out''))
          1700000000 ''alice'' test_world)
     = Inl (TokenExpiredError ''alice'' ''Failed to refresh access token'')"
    using inst by (rule conjunct1)
  have b: "get_by_user_id
       (snd (get_calendar_client sample_cipher test_encryptor (Inl (TransportError ''timed out''))
               1700000000 ''alice'' test_world)) ''alice''
     = Some (alice_row\<lparr>last_error := Some (failure_text (TransportError ''timed out'')),
                         updated_at := Some 1700000000\<rparr>)"
    using inst [THEN conjunct2] by (rule conjunct1)
  show ?thesis
    using a b by (simp only: failure_text.simps simp_thms)
qed

subsection \<open>Claim C8\<close>

text \<open>
  C8: for every user with an active credential record, whatever the cipher answers
  to the decryption and whatever the provider answers to the revocation call,
  \<^verbatim>\<open>revoke_connection\<close> reports success and the store then holds the user's record
  with \<^verbatim>\<open>is_active\<close> false and \<^verbatim>\<open>revoked_at\<close> set; the user has no active record
  any more; no row is deleted, and the encrypted secret, nonce and key id of every row
  are as before.
\<close>

theorem revoke_recorded_locally:
  assumes "get_by_user_id w uid = Some token_row"
  shows "fst (revoke_connection c encryptor google now uid w)
           = RevokeResponse True ''Google Calendar disconnected successfully''
    \<and> tokens (snd (revoke_connection c encryptor google now uid w))
           = map (\<lambda>r. if user_id r = uid
                       then r\<lparr>is_active := False, revoked_at := Some now, updated_at := Some now\<rparr>
                       else r) (tokens w)
    \<and> token_row\<lparr>is_active := False, revoked_at := Some now, updated_at := Some now\<rparr>
         \<in> set (tokens (snd (revoke_connection c encryptor google now uid w)))
    \<and> get_by_user_id (snd (revoke_connection c encryptor google now uid w)) uid = None
    \<and> map encrypted_refresh_token (tokens (snd (revoke_connection c encryptor google now uid w)))
         = map encrypted_refresh_token (tokens w)
    \<and> map encryption_nonce (tokens (snd (revoke_connection c encryptor google now uid w)))
         = map encryption_nonce (tokens w)
    \<and> map encryption_key_id (tokens (snd (revoke_connection c encryptor google now uid w)))
         = map encryption_key_id (tokens w)"
proof -
  let ?f = "\<lambda>r. r\<lparr>is_active := False, revoked_at := Some now, updated_at := Some now\<rparr>"
  let ?g = "\<lambda>r. if user_id r = uid then ?f r else r"
  define w2 where "w2 =
    (case decrypt c encryptor (encrypted_refresh_token token_row) (encryption_nonce token_row) of
       Inl e \<Rightarrow> log_effect w VaultDecrypt
     | Inr refresh_tok \<Rightarrow>
         (case revoke_token google refresh_tok of
            Inl e \<Rightarrow> log_effect (log_effect w VaultDecrypt) (ProviderRevoke refresh_tok)
          | Inr revoked \<Rightarrow> log_effect (log_effect w VaultDecrypt) (ProviderRevoke refresh_tok)))"
  have w2: "tokens w2 = tokens w"
    by (simp add: w2_def split: sum.splits)
  have run: "revoke_connection c encryptor google now uid w
              = (RevokeResponse True ''Google Calendar disconnected successfully'',
                 mark_revoked w2 now uid)"
    unfolding revoke_connection_def assms option.case Let_def w2_def by (rule refl)
  have rows: "tokens (mark_revoked w2 now uid) = map ?g (tokens w)"
    by (simp add: mark_revoked_def w2)
  have mem: "token_row \<in> set (tokens w)" and own: "user_id token_row = uid"
    using get_by_user_id_SomeD [OF assms] by simp_all
  have "?g token_row \<in> ?g ` set (tokens w)"
    using mem by (rule imageI)
  moreover have "?g token_row = ?f token_row"
    using own by simp
  ultimately have kept: "?f token_row \<in> set (map ?g (tokens w))"
    by (simp only: set_map)
  have gone: "get_by_user_id (mark_revoked w2 now uid) uid = None"
    by (rule get_by_user_id_mark_revoked)
  have secret: "map encrypted_refresh_token (map ?g (tokens w)) = map encrypted_refresh_token (tokens w)"
    by (rule trans [OF map_map]) (rule map_cong, rule refl, simp)
  have nonce: "map encryption_nonce (map ?g (tokens w)) = map encryption_nonce (tokens w)"
    by (rule trans [OF map_map]) (rule map_cong, rule refl, simp)
  have kid: "map encryption_key_id (map ?g (tokens w)) = map encryption_key_id (tokens w)"
    by (rule trans [OF map_map]) (rule map_cong, rule refl, simp)
  show ?thesis
    unfolding run fst_conv snd_conv rows
    using kept gone [unfolded rows] secret nonce kid by (intro conjI) (rule refl | assumption)+
qed

text \<open>The provider's revocation endpoint fails; the record of \<open>alice\<close> is revoked all the same.\<close>

theorem revoke_recorded_locally_witness:
  "revoke_token test_provider ''tok'' = Inl (ProviderException ''connection reset'')
   \<and> fst (revoke_connection sample_cipher test_encryptor test_provider 1700000000 ''alice'' test_world)
       = RevokeResponse True ''Google Calendar disconnected successfully''
   \<and> alice_row\<lparr>is_active := False, revoked_at := Some 1700000000, updated_at := Some 1700000000\<rparr>
       \<in> set (tokens (snd (revoke_connection sample_cipher test_encryptor test_provider 1700000000
                              ''alice'' test_world)))
   \<and> get_by_user_id
        (snd (revoke_connection sample_cipher test_encryptor test_provider 1700000000 ''alice''
                test_world)) ''alice'' = None"
proof -
  have p: "revoke_token test_provider ''tok'' = Inl (ProviderException ''connection reset'')"
    by (simp add: test_provider_def)
  note inst = revoke_recorded_locally [OF test_world_alice, of sample_cipher test_encryptor
      test_provider 1700000000]
  show ?thesis
    using p inst [THEN conjunct1] inst [THEN conjunct2, THEN conjunct2, THEN conjunct1]
      inst [THEN conjunct2, THEN conjunct2, THEN conjunct2, THEN conjunct1]
    by (intro conjI) assumption+
qed

subsection \<open>Claim C2\<close>

lemma handle_callback_owned_elsewhere:
  assumes "validate_state h mgr now state = Some uid" and "uid \<noteq> []"
    and "exchange_code google code = Inr tokens_dict"
    and "get_user_info google (access_token tokens_dict) = Inr user_info"
    and "get_by_google_account w (id' user_info) = Some existing"
    and "user_id existing \<noteq> uid"
  shows "handle_callback h c mgr encryptor google nonce now code state w
         = (Inl (OAuthStateError ''This Google account is already connected to another user''),
            log_effect (log_effect w (ProviderExchangeCode code))
              (ProviderUserInfo (access_token tokens_dict)))"
  unfolding handle_callback_def assms(1) option.case Let_def assms(3) sum.case assms(4)
    get_by_google_account_log_effect assms(5)
  using assms(2,6) by simp

lemma bob_state:
  "validate_state sample_hmac test_state_manager 1700000000
     (generate_state sample_hmac test_state_manager test_random_bytes 1700000000 ''bob'')
   = Some ''bob''"
  by (rule validate_state_generate_state) simp_all

lemma test_world_account: "get_by_google_account test_world ''g-1'' = Some alice_row"
  by (simp add: get_by_google_account_def test_world_def alice_row_def)

lemma test_provider_answers:
  "exchange_code test_provider code
     = Inr \<lparr>access_token = ''ya29.a'', refresh_token = Some ''1//r'',
            expires_at = Some 1700003600, scopes = [''calendar'']\<rparr>"
  "get_user_info test_provider tok = Inr \<lparr>email = ''alice@example.com'', id' = ''g-1''\<rparr>"
  by (simp_all add: test_provider_def)

text \<open>
  C2, as stated: the callback for a provider account owned by another user fails with
  \<^verbatim>\<open>AccountConflictError\<close>.  app/core/exceptions.py has no such class: the service
  raises \<^verbatim>\<open>OAuthStateError\<close>, the class of a failed state validation, although the
  state token of \<open>bob\<close> is valid.
\<close>

theorem callback_conflict_error_class_counterexample:
  "fst (handle_callback sample_hmac sample_cipher test_state_manager test_encryptor test_provider
          test_nonce 1700000000 ''auth-code''
          (generate_state sample_hmac test_state_manager test_random_bytes 1700000000 ''bob'')
          test_world)
     = Inl (OAuthStateError ''This Google account is already connected to another user'')
   \<and> exception_name (OAuthStateError ''This Google account is already connected to another user'')
     \<noteq> ''AccountConflictError''"
proof -
  have info: "get_user_info test_provider
                (access_token \<lparr>access_token = ''ya29.a'', refresh_token = Some ''1//r'',
                    expires_at = Some 1700003600, scopes = [''calendar'']\<rparr>)
              = Inr \<lparr>email = ''alice@example.com'', id' = ''g-1''\<rparr>"
    by (rule test_provider_answers)
  have acct: "get_by_google_account test_world (id' \<lparr>email = ''alice@example.com'', id' = ''g-1''\<rparr>)
              = Some alice_row"
    using test_world_account by simp
  have other: "user_id alice_row \<noteq> ''bob''"
    by (simp add: alice_fields)
  have "handle_callback sample_hmac sample_cipher test_state_manager test_encryptor test_provider
          test_nonce 1700000000 ''auth-code''
          (generate_state sample_hmac test_state_manager test_random_bytes 1700000000 ''bob'')
          test_world
        = (Inl (OAuthStateError ''This Google account is already connected to another user''),
            log_effect (log_effect test_world (ProviderExchangeCode ''auth-code''))
              (ProviderUserInfo (access_token \<lparr>access_token = ''ya29.a'', refresh_token = Some ''1//r'',
                    expires_at = Some 1700003600, scopes = [''calendar'']\<rparr>)))"
    by (rule handle_callback_owned_elsewhere [OF bob_state _ test_provider_answers(1) info acct other]) simp
  then show ?thesis by simp
qed

text \<open>
  C2, amended: when the state token verifies to a user, the code exchange and the
  user-info lookup succeed, and the store's lookup of the provider account finds its
  active record with another \<^verbatim>\<open>user_id\<close>, \<^verbatim>\<open>handle_callback\<close> fails with
  \<^verbatim>\<open>OAuthStateError("This Google account is already connected to another user")\<close>.
  The rows of the store are unchanged, and the only effects are the two provider calls:
  nothing is encrypted, deleted or created.
\<close>

theorem callback_conflict:
  assumes "validate_state hmac_sha256 mgr now state = Some uid" and "uid \<noteq> []"
    and "exchange_code google code = Inr tokens_dict"
    and "get_user_info google (access_token tokens_dict) = Inr user_info"
    and "get_by_google_account w (id' user_info) = Some existing"
    and "user_id existing \<noteq> uid"
  shows "fst (handle_callback hmac_sha256 c mgr encryptor google nonce now code state w)
           = Inl (OAuthStateError ''This Google account is already connected to another user'')
    \<and> exception_name (OAuthStateError ''This Google account is already connected to another user'')
           = ''OAuthStateError''
    \<and> tokens (snd (handle_callback hmac_sha256 c mgr encryptor google nonce now code state w))
           = tokens w
    \<and> effects (snd (handle_callback hmac_sha256 c mgr encryptor google nonce now code state w))
           = effects w @ [ProviderExchangeCode code, ProviderUserInfo (access_token tokens_dict)]"
  unfolding handle_callback_owned_elsewhere [OF assms] fst_conv snd_conv
  by simp

text \<open>\<open>bob\<close> completes the authorization with the account that \<open>alice\<close> owns.\<close>

theorem callback_conflict_witness:
  "fst (handle_callback sample_hmac sample_cipher test_state_manager test_encryptor test_provider
          test_nonce 1700000000 ''auth-code''
          (generate_state sample_hmac test_state_manager test_random_bytes 1700000000 ''bob'')
          test_world)
     = Inl (OAuthStateError ''This Google account is already connected to another user'')
   \<and> tokens (snd (handle_callback sample_hmac sample_cipher test_state_manager test_encryptor
                    test_provider test_nonce 1700000000 ''auth-code''
                    (generate_state sample_hmac test_state_manager test_random_bytes 1700000000 ''bob'')
                    test_world))
     = tokens test_world
   \<and> effects (snd (handle_callback sample_hmac sample_cipher test_state_manager test_encryptor
                    test_provider test_nonce 1700000000 ''auth-code''
                    (generate_state sample_hmac test_state_manager test_random_bytes 1700000000 ''bob'')
                    test_world))
     = effects test_world @ [ProviderExchangeCode ''auth-code'', ProviderUserInfo ''ya29.a'']"
proof -
  have info: "get_user_info test_provider
                (access_token \<lparr>access_token = ''ya29.a'', refresh_token = Some ''1//r'',
                    expires_at = Some 1700003600, scopes = [''calendar'']\<rparr>)
              = Inr \<lparr>email = ''alice@example.com'', id' = ''g-1''\<rparr>"
    by (rule test_provider_answers)
  have acct: "get_by_google_account test_world (id' \<lparr>email = ''alice@example.com'', id' = ''g-1''\<rparr>)
              = Some alice_row"
    using test_world_account by simp
  have other: "user_id alice_row \<noteq> ''bob''"
    by (simp add: alice_fields)
  have nonempty: "''bob'' \<noteq> []" by simp
  note inst = callback_conflict [OF bob_state nonempty test_provider_answers(1) info acct other,
      of sample_cipher test_encryptor test_nonce]
  show ?thesis
    using inst [THEN conjunct1] inst [THEN conjunct2, THEN conjunct2, THEN conjunct1]
      inst [THEN conjunct2, THEN conjunct2, THEN conjunct2]
    by simp
qed

subsection \<open>Claim C10\<close>

lemma refresh_calls_log_effect:
  "refresh_calls (log_effect w e) uid
   = refresh_calls w uid + (if e = ProviderRefresh uid then 1 else 0)"
  by (simp add: refresh_calls_def)

lemma refresh_calls_store [simp]:
  "refresh_calls (set_error w now uid err) uid = refresh_calls w uid"
  "refresh_calls (update_expiry w now uid t) uid = refresh_calls w uid"
  by (simp_all add: refresh_calls_def set_error_def update_expiry_def)

lemma get_calendar_client_world:
  assumes "get_by_user_id w uid = Some token_row"
    and "decrypt c encryptor (encrypted_refresh_token token_row) (encryption_nonce token_row)
         = Inr refresh_tok"
  shows "snd (get_calendar_client c encryptor answer now uid w)
         = (let w2 = log_effect (log_effect w VaultDecrypt) (ProviderRefresh uid)
            in case answer of
                 Inl e \<Rightarrow> set_error w2 now uid (failure_text e)
               | Inr creds \<Rightarrow>
                   (case expiry creds of Some t \<Rightarrow> update_expiry w2 now uid t | None \<Rightarrow> w2))"
  unfolding get_calendar_client_def assms(1) option.case Let_def assms(2) sum.case
  by (simp split: sum.splits)

lemma one_request:
  assumes "get_by_user_id w uid = Some token_row"
    and "decrypt c encryptor (encrypted_refresh_token token_row) (encryption_nonce token_row)
         = Inr refresh_tok"
  shows "refresh_calls (snd (get_calendar_client c encryptor answer now uid w)) uid
         = Suc (refresh_calls w uid)"
    and "\<exists>row'. get_by_user_id (snd (get_calendar_client c encryptor answer now uid w)) uid
             = Some row'
           \<and> encrypted_refresh_token row' = encrypted_refresh_token token_row
           \<and> encryption_nonce row' = encryption_nonce token_row"
proof -
  let ?w2 = "log_effect (log_effect w VaultDecrypt) (ProviderRefresh uid)"
  let ?w' = "snd (get_calendar_client c encryptor answer now uid w)"
  have calls2: "refresh_calls ?w2 uid = Suc (refresh_calls w uid)"
    by (simp add: refresh_calls_log_effect)
  have row2: "get_by_user_id ?w2 uid = Some token_row"
    using assms(1) by simp
  consider (failed) e where "answer = Inl e"
    | (renewed) creds t where "answer = Inr creds" "expiry creds = Some t"
    | (plain) creds where "answer = Inr creds" "expiry creds = None"
  proof (cases answer)
    case (Inl e)
    then show ?thesis by (rule failed)
  next
    case (Inr creds)
    show ?thesis
    proof (cases "expiry creds")
      case None
      with Inr show ?thesis by (rule plain)
    next
      case (Some t)
      with Inr show ?thesis by (rule renewed)
    qed
  qed
  then have "refresh_calls ?w' uid = Suc (refresh_calls w uid)
    \<and> (\<exists>row'. get_by_user_id ?w' uid = Some row'
           \<and> encrypted_refresh_token row' = encrypted_refresh_token token_row
           \<and> encryption_nonce row' = encryption_nonce token_row)"
  proof cases
    case (failed e)
    let ?row = "token_row\<lparr>last_error := Some (failure_text e), updated_at := Some now\<rparr>"
    have w': "?w' = set_error ?w2 now uid (failure_text e)"
      using failed by (simp add: get_calendar_client_world [OF assms] Let_def)
    have "get_by_user_id ?w' uid = Some ?row"
      unfolding w' get_by_user_id_set_error row2 by simp
    moreover have "encrypted_refresh_token ?row = encrypted_refresh_token token_row"
      and "encryption_nonce ?row = encryption_nonce token_row"
      by simp_all
    ultimately show ?thesis
      unfolding w' using calls2 by (intro conjI exI [of _ ?row]) simp_all
  next
    case (renewed creds t)
    let ?row = "token_row\<lparr>access_token_expires_at := Some t, updated_at := Some now\<rparr>"
    have w': "?w' = update_expiry ?w2 now uid t"
      using renewed by (simp add: get_calendar_client_world [OF assms] Let_def)
    have "get_by_user_id ?w' uid = Some ?row"
      unfolding w' get_by_user_id_update_expiry row2 by simp
    moreover have "encrypted_refresh_token ?row = encrypted_refresh_token token_row"
      and "encryption_nonce ?row = encryption_nonce token_row"
      by simp_all
    ultimately show ?thesis
      unfolding w' using calls2 by (intro conjI exI [of _ ?row]) simp_all
  next
    case (plain creds)
    have w': "?w' = ?w2"
      using plain by (simp add: get_calendar_client_world [OF assms] Let_def)
    show ?thesis
      unfolding w' using calls2 row2 by (intro conjI exI [of _ token_row]) simp_all
  qed
  then show "refresh_calls ?w' uid = Suc (refresh_calls w uid)"
    and "\<exists>row'. get_by_user_id ?w' uid = Some row'
           \<and> encrypted_refresh_token row' = encrypted_refresh_token token_row
           \<and> encryption_nonce row' = encryption_nonce token_row"
    by (rule conjunct1, rule conjunct2)
qed

lemma serve_requests_refresh_calls:
  assumes "get_by_user_id w uid = Some token_row"
    and "decrypt c encryptor (encrypted_refresh_token token_row) (encryption_nonce token_row)
         = Inr refresh_tok"
  shows "refresh_calls (serve_requests c encryptor answers now uid w) uid
         = refresh_calls w uid + length answers"
  using assms
proof (induction answers arbitrary: w token_row)
  case Nil
  show ?case by simp
next
  case (Cons answer answers)
  let ?w' = "snd (get_calendar_client c encryptor answer now uid w)"
  from one_request(2) [OF Cons.prems, of answer now] obtain row'
    where row: "get_by_user_id ?w' uid = Some row'"
      and same: "encrypted_refresh_token row' = encrypted_refresh_token token_row"
        "encryption_nonce row' = encryption_nonce token_row"
    by (elim exE conjE)
  have dec: "decrypt c encryptor (encrypted_refresh_token row') (encryption_nonce row') = Inr refresh_tok"
    using Cons.prems(2) by (simp only: same)
  have "refresh_calls (serve_requests c encryptor answers now uid ?w') uid
        = refresh_calls ?w' uid + length answers"
    by (rule Cons.IH [OF row dec])
  also have "refresh_calls ?w' uid = Suc (refresh_calls w uid)"
    by (rule one_request(1) [OF Cons.prems])
  finally show ?case by simp
qed

lemma test_world_no_calls: "refresh_calls test_world uid = 0"
  by (simp add: refresh_calls_def test_world_def)

text \<open>
  C10, as stated: requests for a user whose access credential is expired or absent
  trigger exactly one outbound refresh call.  \<^verbatim>\<open>_get_calendar_client\<close> holds no lock
  and never reads \<^verbatim>\<open>access_token_expires_at\<close>; two requests for \<open>alice\<close>, whose
  record has no expiry, make two refresh calls.
\<close>

theorem two_requests_two_refreshes_counterexample:
  "access_token_expires_at alice_row = None
   \<and> refresh_calls test_world ''alice'' = 0
   \<and> refresh_calls
        (serve_requests sample_cipher test_encryptor
           [Inr \<lparr>token = ''ya29.a'', expiry = Some 1700003600\<rparr>,
            Inr \<lparr>token = ''ya29.b'', expiry = Some 1700003600\<rparr>]
           1700000000 ''alice'' test_world) ''alice'' = 2"
proof -
  have absent: "access_token_expires_at alice_row = None"
    by (simp add: alice_row_def)
  have "refresh_calls
        (serve_requests sample_cipher test_encryptor
           [Inr \<lparr>token = ''ya29.a'', expiry = Some 1700003600\<rparr>,
            Inr \<lparr>token = ''ya29.b'', expiry = Some 1700003600\<rparr>]
           1700000000 ''alice'' test_world) ''alice''
        = refresh_calls test_world ''alice''
          + length [Inr \<lparr>token = ''ya29.a'', expiry = Some 1700003600\<rparr>,
                    Inr \<lparr>token = ''ya29.b'', expiry = Some (1700003600 :: int)\<rparr>
                      :: refresh_failure + credentials]"
    by (rule serve_requests_refresh_calls [OF test_world_alice alice_secret])
  then show ?thesis
    using absent by (simp add: test_world_no_calls)
qed

text \<open>
  C10, amended: every request for a user with an active record whose secret decrypts
  makes its own outbound refresh call, whatever the stored expiry and whatever the
  earlier calls returned: N requests make N refresh calls.  There is no exclusive
  section.
\<close>

theorem every_request_refreshes:
  assumes "get_by_user_id w uid = Some token_row"
    and "decrypt c encryptor (encrypted_refresh_token token_row) (encryption_nonce token_row)
         = Inr refresh_tok"
  shows "refresh_calls (serve_requests c encryptor answers now uid w) uid
         = refresh_calls w uid + length answers"
  using assms by (rule serve_requests_refresh_calls)

text \<open>Three requests for \<open>alice\<close>, the second of which times out: three refresh calls.\<close>

theorem every_request_refreshes_witness:
  "refresh_calls
     (serve_requests sample_cipher test_encryptor
        [Inr \<lparr>token = ''ya29.a'', expiry = Some 1700003600\<rparr>,
         Inl (TransportError ''timed out''),
         Inr \<lparr>token = ''ya29.b'', expiry = None\<rparr>]
        1700000000 ''alice'' test_world) ''alice'' = 3"
  using every_request_refreshes [OF test_world_alice alice_secret,
      of "[Inr \<lparr>token = ''ya29.a'', expiry = Some 1700003600\<rparr>,
           Inl (TransportError ''timed out''),
           Inr \<lparr>token = ''ya29.b'', expiry = None\<rparr>]" 1700000000]
  by (simp add: test_world_no_calls)

end
